theory Spec2Isabelle
  imports Complex_Main "HOL-Library.AList" "HOL-Library.Log_Nat"
begin

section \<open>JavaScript values\<close>

text \<open>
  The question generator handles decoded JSON as values of type \<^verbatim>\<open>any\<close>; nothing is
  coerced.  A value is therefore kept as JavaScript has it at run time.  A number is the
  rational a finite double denotes (both zeros are \<open>0\<close>) or an infinity, which
  \<^verbatim>\<open>JSON.parse\<close> returns on an overflowing literal.  An object is the list of its own
  properties in the order of their enumeration, with unique keys.
\<close>

datatype jsnum = Finite rat | PosInfinity | NegInfinity

datatype jsval =
    JUndefined
  | JNull
  | JBool bool
  | JNum jsnum
  | JStr string
  | JArr "jsval list"
  | JObj "(string \<times> jsval) list"

text \<open>\<^verbatim>\<open>ToBoolean\<close>: what \<^verbatim>\<open>!v\<close> and \<^verbatim>\<open>v || d\<close> test.\<close>

fun truthy :: "jsval \<Rightarrow> bool" where
  "truthy JUndefined = False"
| "truthy JNull = False"
| "truthy (JBool b) = b"
| "truthy (JNum n) = (n \<noteq> Finite 0)"
| "truthy (JStr s) = (s \<noteq> [])"
| "truthy (JArr xs) = True"
| "truthy (JObj ps) = True"

text \<open>\<^verbatim>\<open>a || b\<close>\<close>

definition or_else :: "jsval \<Rightarrow> jsval \<Rightarrow> jsval" where
  "or_else a b = (if truthy a then a else b)"

text \<open>
  \<^verbatim>\<open>a === b\<close>.  Primitives compare by value.  Arrays and objects compare by reference,
  and every array or object compared below comes from a decoding of its own, so two of them
  are never the same reference.
\<close>

fun strict_eq :: "jsval \<Rightarrow> jsval \<Rightarrow> bool" where
  "strict_eq (JArr xs) b = False"
| "strict_eq (JObj ps) b = False"
| "strict_eq a b = (a = b)"

definition isArray :: "jsval \<Rightarrow> bool" where
  "isArray v = (case v of JArr xs \<Rightarrow> True | _ \<Rightarrow> False)"

datatype extract_error =
    NoJsonFound
  | SyntaxError
  | TypeError
  | InvalidQuestionsFormat

text \<open>
  \<^verbatim>\<open>v.name\<close>, for the names read below (\<^verbatim>\<open>questions\<close>, \<^verbatim>\<open>id\<close>, \<^verbatim>\<open>text\<close>,
  \<^verbatim>\<open>category\<close>, \<^verbatim>\<open>options\<close>), none of which a built-in prototype defines: reading
  from \<^verbatim>\<open>null\<close> or \<^verbatim>\<open>undefined\<close> throws a TypeError, a missing property reads as
  \<^verbatim>\<open>undefined\<close>.
\<close>

fun get_prop :: "jsval \<Rightarrow> string \<Rightarrow> extract_error + jsval" where
  "get_prop JUndefined name = Inl TypeError"
| "get_prop JNull name = Inl TypeError"
| "get_prop (JObj ps) name = Inr (case map_of ps name of None \<Rightarrow> JUndefined | Some v \<Rightarrow> v)"
| "get_prop v name = Inr JUndefined"

section \<open>Questions\<close>

text \<open>
  \<^verbatim>\<open>interface Question { id; text; options; category }\<close>.  The fields hold what the
  generator stored in them, which the declared types do not constrain at run time.
\<close>

record question =
  id_q :: jsval
  text_q :: jsval
  category :: jsval
  options :: jsval

definition closed_categories :: "jsval set" where
  "closed_categories =
     {JStr ''tech_stack'', JStr ''scope'', JStr ''architecture'', JStr ''features'',
      JStr ''deployment'', JStr ''integrations'', JStr ''other''}"

section \<open>The question extractor\<close>

subsection \<open>Locating the span\<close>

text \<open>
  \<^verbatim>\<open>String.prototype.trim\<close>, on the white space and line terminators of ASCII.  The
  language trims some characters outside ASCII as well; like these, none of them is a brace,
  and the match below depends on the braces only.
\<close>

definition is_space :: "char \<Rightarrow> bool" where
  "is_space c = (c \<in> {CHR 0x09, CHR 0x0A, CHR 0x0B, CHR 0x0C, CHR 0x0D, CHR 0x20})"

definition trim :: "string \<Rightarrow> string" where
  "trim s = rev (dropWhile is_space (rev (dropWhile is_space s)))"

text \<open>
  \<^verbatim>\<open>cleaned.match(/\{[\s\S]*\}/)\<close>: the leftmost match starts at the first opening brace;
  the starred class takes any character and is greedy, so the match ends at the last
  closing brace after it.  There is no match when no closing brace follows the first
  opening brace.
\<close>

definition jsonMatch :: "string \<Rightarrow> string option" where
  "jsonMatch s =
     (let rest = dropWhile (\<lambda>c. c \<noteq> CHR ''{'') s
      in if CHR ''}'' \<in> set rest
         then Some (rev (dropWhile (\<lambda>c. c \<noteq> CHR ''}'') (rev rest)))
         else None)"

text \<open>
  The span as the specification words it: from the first opening brace to the closing
  brace that matches it, counting nesting depth.
\<close>

fun closing_spec :: "nat \<Rightarrow> string \<Rightarrow> string \<Rightarrow> string option" where
  "closing_spec depth seen [] = None"
| "closing_spec depth seen (c # cs) =
     (if c = CHR ''{'' then closing_spec (Suc depth) (c # seen) cs
      else if c = CHR ''}'' then
        (if depth = 1 then Some (rev (c # seen)) else closing_spec (depth - 1) (c # seen) cs)
      else closing_spec depth (c # seen) cs)"

definition balanced_span_spec :: "string \<Rightarrow> string option" where
  "balanced_span_spec s =
     (case dropWhile (\<lambda>c. c \<noteq> CHR ''{'') s of
        [] \<Rightarrow> None
      | c # cs \<Rightarrow> closing_spec 1 [c] cs)"

subsection \<open>Mapping the decoded entries\<close>

text \<open>The decimal text of a number, as the template literal \<^verbatim>\<open>`q${index + 1}`\<close> renders it.\<close>

definition digit_char :: "nat \<Rightarrow> char" where
  "digit_char d = char_of (48 + d)"

fun show_nat :: "nat \<Rightarrow> string" where
  "show_nat n = (if n < 10 then [digit_char n] else show_nat (n div 10) @ [digit_char (n mod 10)])"

declare show_nat.simps [simp del]

text \<open>
  The callback of \<^verbatim>\<open>parsed.questions.map\<close>.  Its first property read throws when the
  entry is \<^verbatim>\<open>null\<close>.
\<close>

definition toQuestion :: "nat \<Rightarrow> jsval \<Rightarrow> extract_error + question" where
  "toQuestion index q =
     (case get_prop q ''id'' of
        Inl e \<Rightarrow> Inl e
      | Inr i \<Rightarrow>
          (case (get_prop q ''text'', get_prop q ''category'', get_prop q ''options'') of
             (Inr t, Inr c, Inr os) \<Rightarrow>
               Inr \<lparr> id_q = or_else i (JStr (''q'' @ show_nat (index + 1))),
                     text_q = t,
                     category = or_else c (JStr ''other''),
                     options = or_else os (JArr []) \<rparr>
           | _ \<Rightarrow> Inl TypeError))"

fun mapQuestions :: "nat \<Rightarrow> jsval list \<Rightarrow> extract_error + question list" where
  "mapQuestions index [] = Inr []"
| "mapQuestions index (q # qs) =
     (case toQuestion index q of
        Inl e \<Rightarrow> Inl e
      | Inr x \<Rightarrow>
          (case mapQuestions (Suc index) qs of
             Inl e \<Rightarrow> Inl e
           | Inr xs \<Rightarrow> Inr (x # xs)))"

subsection \<open>parseQuestions\<close>

text \<open>
  \<^verbatim>\<open>JSON.parse\<close> is the built-in of the language and is a parameter here: \<open>None\<close> is a
  thrown SyntaxError.  \<open>extractQuestions\<close> is the body of the \<^verbatim>\<open>try\<close> block of
  \<^verbatim>\<open>parseQuestions\<close>, every \<^verbatim>\<open>throw\<close> in it a left value; \<open>fromParsed\<close> is the
  part of that block after the decoding.
\<close>

type_synonym json_parse = "string \<Rightarrow> jsval option"

definition fromParsed :: "jsval \<Rightarrow> extract_error + question list" where
  "fromParsed parsed =
     (case get_prop parsed ''questions'' of
        Inl e \<Rightarrow> Inl e
      | Inr qs \<Rightarrow>
          if \<not> truthy qs \<or> \<not> isArray qs then Inl InvalidQuestionsFormat
          else (case qs of JArr entries \<Rightarrow> mapQuestions 0 entries
                         | _ \<Rightarrow> Inl InvalidQuestionsFormat))"

definition extractQuestions :: "json_parse \<Rightarrow> string \<Rightarrow> extract_error + question list" where
  "extractQuestions JSON_parse jsonText =
     (case jsonMatch (trim jsonText) of
        None \<Rightarrow> Inl NoJsonFound
      | Some matched \<Rightarrow>
          (case JSON_parse matched of
             None \<Rightarrow> Inl SyntaxError
           | Some parsed \<Rightarrow> fromParsed parsed))"

definition getFallbackQuestions :: "question list" where
  "getFallbackQuestions =
     [ \<lparr> id_q = JStr ''q1'',
         text_q = JStr ''What is the primary technology stack?'',
         category = JStr ''tech_stack'',
         options = JArr [JStr ''JavaScript/Node.js'', JStr ''Python'', JStr ''Java'',
                         JStr ''Go'', JStr ''Other''] \<rparr>,
       \<lparr> id_q = JStr ''q2'',
         text_q = JStr ''What type of application is this?'',
         category = JStr ''architecture'',
         options = JArr [JStr ''Web application'', JStr ''Mobile app'',
                         JStr ''API/Backend service'', JStr ''Desktop application'',
                         JStr ''CLI tool''] \<rparr>,
       \<lparr> id_q = JStr ''q3'',
         text_q = JStr ''What is the deployment target?'',
         category = JStr ''deployment'',
         options = JArr [JStr ''Cloud (AWS/GCP/Azure)'', JStr ''Vercel/Netlify'',
                         JStr ''Docker/Kubernetes'', JStr ''On-premises'',
                         JStr ''Local development only''] \<rparr>,
       \<lparr> id_q = JStr ''q4'',
         text_q = JStr ''Does this require a database?'',
         category = JStr ''features'',
         options = JArr [JStr ''Yes, SQL (PostgreSQL/MySQL)'',
                         JStr ''Yes, NoSQL (MongoDB/DynamoDB)'', JStr ''Yes, both'',
                         JStr ''No'', JStr ''Not sure''] \<rparr>,
       \<lparr> id_q = JStr ''q5'',
         text_q = JStr ''What is the project scope?'',
         category = JStr ''scope'',
         options = JArr [JStr ''Quick prototype/MVP'', JStr ''Production-ready application'',
                         JStr ''Enterprise-grade system'', JStr ''Personal project'',
                         JStr ''Learning/experimental''] \<rparr> ]"



subsection \<open>generateQuestions and streamQuestions\<close>








text \<open>
  What \<^verbatim>\<open>JSON.parse\<close> returns on the texts that the examples of this theory decode;
  the examples call it on no other text.
\<close>

definition JSON_parse_examples :: json_parse where
  \<open>JSON_parse_examples s =
     (if s = ''{"questions":[]}'' then Some (JObj [(''questions'', JArr [])])
      else if s = ''{"questions":[{"text":"Which?","category":"budget"}]}''
        then Some (JObj [(''questions'',
               JArr [JObj [(''text'', JStr ''Which?''), (''category'', JStr ''budget'')]])])
      else if s = ''{"questions":[{"id":"q1","text":"Which?"}]}''
        then Some (JObj [(''questions'',
               JArr [JObj [(''id'', JStr ''q1''), (''text'', JStr ''Which?'')]])])
      else if s = ''{"questions":[{"id":1e999,"text":"Which?"}]}''
        then Some (JObj [(''questions'',
               JArr [JObj [(''id'', JNum PosInfinity), (''text'', JStr ''Which?'')]])])
      else None)\<close>

section \<open>Sessions and the session store\<close>

text \<open>
  \<^verbatim>\<open>interface Session\<close>.  The answer mapping is a \<^verbatim>\<open>Map\<close>: its entries in insertion
  order, with unique keys; \<^verbatim>\<open>Map.set\<close> is \<open>AList.update\<close>, which replaces the value of a
  key in place and appends a new key.  A \<^verbatim>\<open>Date\<close> is its time value in milliseconds;
  the dates of a session are valid ones.
\<close>

record session =
  sessionId :: string
  taskDescription :: string
  questions :: "question list"
  responses :: "(string \<times> string) list"
  createdAt :: int
  lastUpdated :: int

text \<open>
  \<^verbatim>\<open>interface TaskContext\<close>: the answers as a plain object, given by its own properties
  in enumeration order, and the dates as text.
\<close>

record task_context =
  sessionId_c :: string
  taskDescription_c :: string
  questions_c :: "question list"
  responses_c :: "(string \<times> string) list"
  createdAt_c :: string
  lastUpdated_c :: string

subsection \<open>Plain objects made from a Map\<close>

text \<open>
  An array index is a canonical numeric string below \<open>2\<^sup>3\<^sup>2 - 1\<close>.  The own properties of
  an object are enumerated with the array indices first, in ascending order, and the other
  keys after them in the order of their creation.
\<close>

definition is_digit :: "char \<Rightarrow> bool" where
  "is_digit c = (c \<in> set ''0123456789'')"

definition digit_val :: "char \<Rightarrow> nat" where
  "digit_val c = of_char c - 48"

definition array_index :: "string \<Rightarrow> nat option" where
  "array_index s =
     (if s \<noteq> [] \<and> list_all is_digit s \<and> (s = ''0'' \<or> hd s \<noteq> CHR ''0'')
      then (let n = foldl (\<lambda>a c. 10 * a + digit_val c) 0 s
            in if n < 2 ^ 32 - 1 then Some n else None)
      else None)"

definition own_properties :: "(string \<times> 'v) list \<Rightarrow> (string \<times> 'v) list" where
  "own_properties created =
     sort_key (\<lambda>(k, v). the (array_index k)) (filter (\<lambda>(k, v). array_index k \<noteq> None) created)
     @ filter (\<lambda>(k, v). array_index k = None) created"

text \<open>
  \<^verbatim>\<open>Object.fromEntries(entries)\<close> creates or overwrites one property for each entry, in
  order.  \<^verbatim>\<open>Object.entries\<close> and \<^verbatim>\<open>Object.keys\<close> enumerate the own properties, as does
  \<^verbatim>\<open>JSON.stringify\<close>.
\<close>

definition Object_fromEntries :: "(string \<times> 'v) list \<Rightarrow> (string \<times> 'v) list" where
  "Object_fromEntries entries =
     own_properties (foldl (\<lambda>obj (k, v). AList.update k v obj) [] entries)"

definition Object_entries :: "(string \<times> 'v) list \<Rightarrow> (string \<times> 'v) list" where
  "Object_entries obj = own_properties obj"

definition Object_keys :: "(string \<times> 'v) list \<Rightarrow> string list" where
  "Object_keys obj = map fst (own_properties obj)"

text \<open>\<^verbatim>\<open>new Map(entries)\<close>\<close>

definition new_Map :: "(string \<times> 'v) list \<Rightarrow> (string \<times> 'v) list" where
  "new_Map entries = foldl (\<lambda>m (k, v). AList.update k v m) [] entries"

subsection \<open>The persisted file of a session\<close>

text \<open>
  A session file holds the JSON text of the object that \<open>saveSession\<close> builds.  It is
  modelled by the document that the text denotes, which is what \<^verbatim>\<open>JSON.parse\<close> reads
  back from it.  \<^verbatim>\<open>JSON.stringify\<close> writes strings, booleans, \<^verbatim>\<open>null\<close> and finite
  numbers as they are, arrays and objects member by member; it writes \<^verbatim>\<open>null\<close> for an
  infinite number and for \<^verbatim>\<open>undefined\<close> in an array, and it leaves out a property whose
  value is \<^verbatim>\<open>undefined\<close>, which then reads as \<^verbatim>\<open>undefined\<close> again.  The dates are in
  the document as the text that \<^verbatim>\<open>Date.prototype.toJSON\<close> gives, which is
  \<^verbatim>\<open>toISOString\<close>; the answers are in it as a flat object, which a document may lack.
  A file can also hold a text that \<^verbatim>\<open>JSON.parse\<close> rejects.
\<close>

fun json_roundtrip :: "jsval \<Rightarrow> jsval" where
  "json_roundtrip JUndefined = JNull"
| "json_roundtrip JNull = JNull"
| "json_roundtrip (JBool b) = JBool b"
| "json_roundtrip (JNum n) = (case n of Finite r \<Rightarrow> JNum (Finite r) | _ \<Rightarrow> JNull)"
| "json_roundtrip (JStr s) = JStr s"
| "json_roundtrip (JArr xs) = JArr (map json_roundtrip xs)"
| "json_roundtrip (JObj ps) =
     JObj (map (\<lambda>(k, v). (k, json_roundtrip v)) (filter (\<lambda>(k, v). v \<noteq> JUndefined) ps))"

definition json_property :: "jsval \<Rightarrow> jsval" where
  "json_property v = (if v = JUndefined then JUndefined else json_roundtrip v)"

definition stored_question :: "question \<Rightarrow> question" where
  "stored_question q =
     \<lparr> id_q = json_property (id_q q),
       text_q = json_property (text_q q),
       category = json_property (category q),
       options = json_property (options q) \<rparr>"

record session_file =
  sessionId_f :: string
  taskDescription_f :: string
  questions_f :: "question list"
  responses_f :: "(string \<times> string) list option"
  createdAt_f :: string
  lastUpdated_f :: string

datatype file_content = Document session_file | Unreadable

text \<open>
  The questions that a file holds as they are: no infinite number in them, and no
  \<^verbatim>\<open>undefined\<close> inside an array or an object.  The questions of the declared type, with
  strings for id, text and category and an array of strings for the options, are such.
\<close>

definition json_questions :: "question list \<Rightarrow> bool" where
  "json_questions qs \<longleftrightarrow> map stored_question qs = qs"

definition declared_question :: "question \<Rightarrow> bool" where
  "declared_question q \<longleftrightarrow>
     (\<exists>i t c os. q = \<lparr> id_q = JStr i, text_q = JStr t, category = JStr c,
                          options = JArr (map JStr os) \<rparr>)"

text \<open>
  The two conversions of a date are those of the language and are parameters:
  \<open>toISOString\<close> of a time value, and the time value of \<^verbatim>\<open>new Date(text)\<close>.
\<close>

type_synonym to_iso = "int \<Rightarrow> string"
type_synonym from_iso = "string \<Rightarrow> int"

text \<open>The object \<^verbatim>\<open>data\<close> of \<open>saveSession\<close>.\<close>

definition toFile :: "to_iso \<Rightarrow> session \<Rightarrow> session_file" where
  "toFile toISOString session =
     \<lparr> sessionId_f = sessionId session,
       taskDescription_f = taskDescription session,
       questions_f = map stored_question (questions session),
       responses_f = Some (Object_fromEntries (responses session)),
       createdAt_f = toISOString (createdAt session),
       lastUpdated_f = toISOString (lastUpdated session) \<rparr>"

text \<open>The object \<^verbatim>\<open>session\<close> that \<open>loadSessions\<close> builds from a decoded file.\<close>

definition fromFile :: "from_iso \<Rightarrow> session_file \<Rightarrow> session" where
  "fromFile newDate data =
     \<lparr> sessionId = sessionId_f data,
       taskDescription = taskDescription_f data,
       questions = questions_f data,
       responses = new_Map (Object_entries (case responses_f data of None \<Rightarrow> [] | Some r \<Rightarrow> r)),
       createdAt = newDate (createdAt_f data),
       lastUpdated = newDate (lastUpdated_f data) \<rparr>"

subsection \<open>The store\<close>

text \<open>
  The state of a \<^verbatim>\<open>SessionManager\<close>: the \<^verbatim>\<open>Map\<close> of live sessions in insertion
  order, the timeout, and the files of the sessions directory by name.  A write or a
  deletion is taken to be complete when the operation that starts it returns.
\<close>

record store =
  sessions :: "(string \<times> session) list"
  sessionTimeout :: int
  files :: "string \<rightharpoonup> file_content"

definition endsWith :: "string \<Rightarrow> string \<Rightarrow> bool" where
  "endsWith s suffix =
     (length suffix \<le> length s \<and> drop (length s - length suffix) s = suffix)"

text \<open>
  \<open>saveSession\<close>.  \<open>written\<close> tells whether \<^verbatim>\<open>mkdir\<close> and \<^verbatim>\<open>writeFile\<close> succeeded;
  when they did not, the error is logged and nothing else happens.
\<close>

definition saveSession :: "bool \<Rightarrow> to_iso \<Rightarrow> session \<Rightarrow> store \<Rightarrow> store" where
  "saveSession written toISOString session st =
     (if written
      then st\<lparr> files := (files st)(sessionId session @ ''.json''
                              \<mapsto> Document (toFile toISOString session)) \<rparr>
      else st)"

text \<open>
  The loop of \<open>loadSessions\<close> over the names that \<^verbatim>\<open>readdir\<close> returned.  A file that
  cannot be read or decoded throws, and the \<^verbatim>\<open>catch\<close> around the loop ends the loading
  with the sessions set so far.
\<close>

fun loadFiles ::
  "from_iso \<Rightarrow> (string \<rightharpoonup> file_content) \<Rightarrow> string list
     \<Rightarrow> (string \<times> session) list \<Rightarrow> (string \<times> session) list" where
  "loadFiles newDate dir [] loaded = loaded"
| "loadFiles newDate dir (file # rest) loaded =
     (if endsWith file ''.json'' then
        (case dir file of
           None \<Rightarrow> loaded
         | Some Unreadable \<Rightarrow> loaded
         | Some (Document data) \<Rightarrow>
             (let session = fromFile newDate data
              in loadFiles newDate dir rest (AList.update (sessionId session) session loaded)))
      else loadFiles newDate dir rest loaded)"

text \<open>\<open>listing\<close> is the result of \<^verbatim>\<open>readdir\<close>; it is empty when \<^verbatim>\<open>readdir\<close> fails.\<close>

definition loadSessions :: "from_iso \<Rightarrow> string list \<Rightarrow> store \<Rightarrow> store" where
  "loadSessions newDate listing st =
     st\<lparr> sessions := loadFiles newDate (files st) listing (sessions st) \<rparr>"

text \<open>The store of a process that starts: no session yet, then the loading.\<close>

definition startup :: "from_iso \<Rightarrow> string list \<Rightarrow> int \<Rightarrow> (string \<rightharpoonup> file_content) \<Rightarrow> store" where
  "startup newDate listing timeoutMs dir =
     loadSessions newDate listing \<lparr> sessions = [], sessionTimeout = timeoutMs, files = dir \<rparr>"

text \<open>
  \<open>generateSessionId\<close>, from the reading of \<^verbatim>\<open>Date.now()\<close> and the text that
  \<^verbatim>\<open>Math.random().toString(36).substr(2, 9)\<close> gave.
\<close>

definition generateSessionId :: "nat \<Rightarrow> string \<Rightarrow> string" where
  "generateSessionId now random = ''session_'' @ show_nat now @ ''_'' @ random"

text \<open>
  \<open>createSession\<close>.  \<open>created\<close> and \<open>updated\<close> are the readings of the two
  \<^verbatim>\<open>new Date()\<close>.
\<close>

definition createSession ::
  "bool \<Rightarrow> to_iso \<Rightarrow> nat \<Rightarrow> string \<Rightarrow> int \<Rightarrow> int \<Rightarrow> string \<Rightarrow> question list \<Rightarrow> store
     \<Rightarrow> session \<times> store" where
  "createSession written toISOString now random created updated description qs st =
     (let session = \<lparr> sessionId = generateSessionId now random,
                       taskDescription = description,
                       questions = qs,
                       responses = [],
                       createdAt = created,
                       lastUpdated = updated \<rparr>
      in (session,
          saveSession written toISOString session
            (st\<lparr> sessions := AList.update (sessionId session) session (sessions st) \<rparr>)))"

definition getSession :: "string \<Rightarrow> store \<Rightarrow> session option" where
  "getSession sid st = map_of (sessions st) sid"

text \<open>
  \<open>addResponse\<close>.  The session object is the one the \<^verbatim>\<open>Map\<close> holds under \<open>sid\<close>, so
  its mutation is an update of that entry.
\<close>

definition addResponse ::
  "bool \<Rightarrow> to_iso \<Rightarrow> int \<Rightarrow> string \<Rightarrow> string \<Rightarrow> string \<Rightarrow> store \<Rightarrow> bool \<times> store" where
  "addResponse written toISOString now sid questionId answer st =
     (case map_of (sessions st) sid of
        None \<Rightarrow> (False, st)
      | Some session \<Rightarrow>
          (case find (\<lambda>q. strict_eq (id_q q) (JStr questionId)) (questions session) of
             None \<Rightarrow> (False, st)
           | Some question \<Rightarrow>
               (let session' = session\<lparr> responses := AList.update questionId answer (responses session),
                                         lastUpdated := now \<rparr>
                in (True,
                    saveSession written toISOString session'
                      (st\<lparr> sessions := AList.update sid session' (sessions st) \<rparr>)))))"

definition toTaskContext :: "to_iso \<Rightarrow> session \<Rightarrow> task_context" where
  "toTaskContext toISOString session =
     \<lparr> sessionId_c = sessionId session,
       taskDescription_c = taskDescription session,
       questions_c = questions session,
       responses_c = Object_fromEntries (responses session),
       createdAt_c = toISOString (createdAt session),
       lastUpdated_c = toISOString (lastUpdated session) \<rparr>"

definition getTaskContext :: "to_iso \<Rightarrow> string \<Rightarrow> store \<Rightarrow> task_context option" where
  "getTaskContext toISOString sid st =
     (case map_of (sessions st) sid of
        None \<Rightarrow> None
      | Some session \<Rightarrow> Some (toTaskContext toISOString session))"

definition getAllSessions :: "to_iso \<Rightarrow> store \<Rightarrow> task_context list" where
  "getAllSessions toISOString st = map (\<lambda>(sid, session). toTaskContext toISOString session) (sessions st)"

text \<open>
  The callback of \<open>startCleanupInterval\<close>, run at a tick: \<open>now\<close> is the reading of
  \<^verbatim>\<open>Date.now()\<close>, and \<open>unlinked\<close> tells of a file name whether its \<^verbatim>\<open>unlink\<close>
  succeeds; a failure is swallowed.  The loop runs over the entries of the \<^verbatim>\<open>Map\<close>,
  and deleting the entry it is at does not disturb it.
\<close>

fun sweep ::
  "(string \<Rightarrow> bool) \<Rightarrow> int \<Rightarrow> (string \<times> session) list \<Rightarrow> store \<Rightarrow> store" where
  "sweep unlinked now [] st = st"
| "sweep unlinked now ((sid, session) # entries) st =
     (if now - lastUpdated session > sessionTimeout st
      then sweep unlinked now entries
             (st\<lparr> sessions := AList.delete sid (sessions st),
                   files := (if unlinked (sid @ ''.json'')
                             then (files st)(sid @ ''.json'' := None)
                             else files st) \<rparr>)
      else sweep unlinked now entries st)"

definition cleanupTick :: "(string \<Rightarrow> bool) \<Rightarrow> int \<Rightarrow> store \<Rightarrow> store" where
  "cleanupTick unlinked now st = sweep unlinked now (sessions st) st"

text \<open>
  The representation invariant of the \<^verbatim>\<open>Map\<close>s, and the way every operation keys a
  session: under its own id.
\<close>

definition wf_session :: "session \<Rightarrow> bool" where
  "wf_session s \<longleftrightarrow> distinct (map fst (responses s))"

definition wf_store :: "store \<Rightarrow> bool" where
  "wf_store st \<longleftrightarrow>
     distinct (map fst (sessions st)) \<and>
     list_all (\<lambda>(sid, s). sessionId s = sid \<and> wf_session s) (sessions st)"

text \<open>
  The invariant of the answers: every key of the answer mapping is the id of a question of
  the same session.  For the store it is stated of the live sessions and of the session
  files, from which the live sessions are rebuilt at a start.
\<close>

definition answers_in_questions :: "(string \<times> string) list \<Rightarrow> question list \<Rightarrow> bool" where
  "answers_in_questions answers qs \<longleftrightarrow>
     list_all (\<lambda>(k, v). list_ex (\<lambda>q. strict_eq (id_q q) (JStr k)) qs) answers"

definition file_answers_in_questions :: "file_content \<Rightarrow> bool" where
  "file_answers_in_questions c \<longleftrightarrow>
     (case c of
        Unreadable \<Rightarrow> True
      | Document data \<Rightarrow>
          answers_in_questions (case responses_f data of None \<Rightarrow> [] | Some r \<Rightarrow> r) (questions_f data))"

definition store_inv :: "store \<Rightarrow> bool" where
  "store_inv st \<longleftrightarrow>
     list_all (\<lambda>(sid, s). answers_in_questions (responses s) (questions s)) (sessions st) \<and>
     (\<forall>name c. files st name = Some c \<longrightarrow> file_answers_in_questions c)"

text \<open>The operations of the store, and a run of them from a state.\<close>

datatype store_op =
    Create bool nat string int int string "question list"
  | Answer bool int string string string
  | Tick "string \<Rightarrow> bool" int
  | Restart "string list"

fun apply_op :: "to_iso \<Rightarrow> from_iso \<Rightarrow> store_op \<Rightarrow> store \<Rightarrow> store" where
  "apply_op toISOString newDate (Create written now random created updated description qs) st =
     snd (createSession written toISOString now random created updated description qs st)"
| "apply_op toISOString newDate (Answer written now sid questionId answer) st =
     snd (addResponse written toISOString now sid questionId answer st)"
| "apply_op toISOString newDate (Tick unlinked now) st = cleanupTick unlinked now st"
| "apply_op toISOString newDate (Restart listing) st =
     startup newDate listing (sessionTimeout st) (files st)"

definition run_ops :: "to_iso \<Rightarrow> from_iso \<Rightarrow> store_op list \<Rightarrow> store \<Rightarrow> store" where
  "run_ops toISOString newDate ops st = foldl (\<lambda>s op. apply_op toISOString newDate op s) st ops"

definition empty_store :: "int \<Rightarrow> store" where
  "empty_store timeoutMs = \<lparr> sessions = [], sessionTimeout = timeoutMs, files = Map.empty \<rparr>"

section \<open>Progress arithmetic\<close>

text \<open>
  The routes compute \<^verbatim>\<open>Math.round((answeredCount / totalCount) * 100)\<close> in double
  precision.  A double is the rational it denotes.  \<open>to_double\<close> rounds a rational of
  magnitude below \<open>2\<^sup>1\<^sup>0\<^sup>2\<^sup>4\<close> to the nearest double, ties to the even significand: the
  spacing of the doubles at \<open>x\<close> is \<open>2\<close> to the power of the binade of \<open>x\<close> less 52, the
  binade being at least \<open>-1022\<close>.  The two counts are lengths of arrays, which are exact
  doubles.
\<close>

definition round_ties_even :: "rat \<Rightarrow> int" where
  "round_ties_even x =
     (let n = \<lfloor>x\<rfloor>; r = x - of_int n
      in if r < 1 / 2 then n else if 1 / 2 < r then n + 1 else if even n then n else n + 1)"

text \<open>The \<open>e\<close> with \<open>2\<^sup>e \<le> x < 2\<^sup>e\<^sup>+\<^sup>1\<close>, for a positive \<open>x\<close>.\<close>

definition binade :: "rat \<Rightarrow> int" where
  "binade x =
     (let (p, q) = quotient_of x; d = bitlen p - bitlen q
      in if 2 powi d \<le> x then d else d - 1)"

definition to_double :: "rat \<Rightarrow> rat" where
  "to_double x =
     (if x = 0 then 0
      else (let u = 2 powi (max (binade \<bar>x\<bar>) (- 1022) - 52)
            in of_int (round_ties_even (x / u)) * u))"

text \<open>\<^verbatim>\<open>Math.round\<close>: the nearest integer, a tie going up.\<close>

definition Math_round :: "rat \<Rightarrow> int" where
  "Math_round x = \<lfloor>x + 1 / 2\<rfloor>"

text \<open>
  With no question the quotient is \<^verbatim>\<open>NaN\<close> or \<^verbatim>\<open>Infinity\<close>, and so is the rounded
  product, which \<^verbatim>\<open>JSON.stringify\<close> writes as \<^verbatim>\<open>null\<close>: that is \<open>None\<close>.
\<close>

definition roundedPercent :: "nat \<Rightarrow> nat \<Rightarrow> int option" where
  "roundedPercent answeredCount totalCount =
     (if totalCount = 0 then None
      else Some (Math_round (to_double (to_double (of_nat answeredCount / of_nat totalCount) * 100))))"

text \<open>
  \<open>100 * a / t\<close> rounded to the nearest integer when it is not at a half: the floor, and one
  more when the remainder is above the half.
\<close>

definition nearest_percent :: "nat \<Rightarrow> nat \<Rightarrow> int" where
  "nearest_percent a t = int ((100 * a) div t) + (if 2 * ((100 * a) mod t) < t then 0 else 1)"

section \<open>Request handlers\<close>

text \<open>
  The fields of an answer request are strings, as \<^verbatim>\<open>AnswerQuestionRequest\<close> declares
  them; the empty string is the falsy one.
\<close>

subsection \<open>The tool protocol\<close>

text \<open>
  The result of a tool call: the text payload, or the error payload that the request
  handler makes of a thrown error.  After a success the context is not \<^verbatim>\<open>null\<close>; were it
  so, reading its \<^verbatim>\<open>responses\<close> would throw a TypeError.
\<close>

record answer_text =
  sessionId_t :: string
  questionId_t :: string
  answer_t :: string
  progress_t :: string
  message_t :: string

datatype tool_result = ToolError string | ToolAnswer answer_text

definition handleAnswerQuestion ::
  "bool \<Rightarrow> to_iso \<Rightarrow> int \<Rightarrow> string \<Rightarrow> string \<Rightarrow> string \<Rightarrow> store \<Rightarrow> tool_result \<times> store" where
  "handleAnswerQuestion written toISOString now sid questionId answer st =
     (let (success, st') = addResponse written toISOString now sid questionId answer st
      in if \<not> success then (ToolError ''Invalid session ID or question ID'', st')
         else
           (case getTaskContext toISOString sid st' of
              None \<Rightarrow> (ToolError ''TypeError'', st')
            | Some context \<Rightarrow>
                (let answeredCount = length (Object_keys (responses_c context));
                     totalCount = length (questions_c context)
                 in (ToolAnswer
                       \<lparr> sessionId_t = sid,
                         questionId_t = questionId,
                         answer_t = answer,
                         progress_t = show_nat answeredCount @ ''/'' @ show_nat totalCount
                                        @ '' questions answered'',
                         message_t =
                           (if answeredCount = totalCount
                            then ''All questions answered! Use get_context to retrieve full context.''
                            else ''Answer recorded. Continue answering remaining questions.'') \<rparr>,
                     st'))))"

subsection \<open>The HTTP routes\<close>

text \<open>
  The routes under \<^verbatim>\<open>/api\<close>, for a request that has passed the bearer check of the
  middleware.  A response is its status and its body.
\<close>

record progress =
  answered :: nat
  total :: nat
  percentage :: "int option"

record session_summary =
  sessionId_s :: string
  taskDescription_s :: string
  questionsTotal :: nat
  questionsAnswered :: nat
  percentComplete :: "int option"
  createdAt_s :: string
  lastUpdated_s :: string

datatype http_body =
    ErrorBody string
  | AnswerBody string string string progress bool
  | ContextBody task_context progress
  | SessionsBody nat "session_summary list"

definition apiAnswer ::
  "bool \<Rightarrow> to_iso \<Rightarrow> int \<Rightarrow> string \<Rightarrow> string \<Rightarrow> string \<Rightarrow> store
     \<Rightarrow> (nat \<times> http_body) \<times> store" where
  "apiAnswer written toISOString now sid questionId answer st =
     (if sid = [] \<or> questionId = [] \<or> answer = []
      then ((400, ErrorBody ''sessionId, questionId, and answer are required''), st)
      else
        (let (success, st') = addResponse written toISOString now sid questionId answer st
         in if \<not> success then ((404, ErrorBody ''Session or question not found''), st')
            else
              (case getTaskContext toISOString sid st' of
                 None \<Rightarrow> ((500, ErrorBody ''Failed to record answer''), st')
               | Some context \<Rightarrow>
                   (let answeredCount = length (Object_keys (responses_c context));
                        totalCount = length (questions_c context)
                    in ((200,
                         AnswerBody sid questionId answer
                           \<lparr> answered = answeredCount,
                             total = totalCount,
                             percentage = roundedPercent answeredCount totalCount \<rparr>
                           (answeredCount = totalCount)),
                        st')))))"

definition apiContext :: "to_iso \<Rightarrow> string \<Rightarrow> store \<Rightarrow> nat \<times> http_body" where
  "apiContext toISOString sid st =
     (case getTaskContext toISOString sid st of
        None \<Rightarrow> (404, ErrorBody ''Session not found'')
      | Some context \<Rightarrow>
          (let answeredCount = length (Object_keys (responses_c context));
               totalCount = length (questions_c context)
           in (200,
               ContextBody context
                 \<lparr> answered = answeredCount,
                   total = totalCount,
                   percentage = roundedPercent answeredCount totalCount \<rparr>)))"

definition apiSessions :: "to_iso \<Rightarrow> store \<Rightarrow> nat \<times> http_body" where
  "apiSessions toISOString st =
     (let all = getAllSessions toISOString st;
          sessionList =
            map (\<lambda>session.
                   \<lparr> sessionId_s = sessionId_c session,
                     taskDescription_s = taskDescription_c session,
                     questionsTotal = length (questions_c session),
                     questionsAnswered = length (Object_keys (responses_c session)),
                     percentComplete =
                       roundedPercent (length (Object_keys (responses_c session)))
                         (length (questions_c session)),
                     createdAt_s = createdAt_c session,
                     lastUpdated_s = lastUpdated_c session \<rparr>) all
      in (200, SessionsBody (length all) sessionList))"

text \<open>Whether a transport accepted the request.\<close>

definition tool_accepted :: "tool_result \<Rightarrow> bool" where
  "tool_accepted r = (case r of ToolError msg \<Rightarrow> False | ToolAnswer payload \<Rightarrow> True)"

definition http_accepted :: "nat \<times> http_body \<Rightarrow> bool" where
  "http_accepted r = (fst r = 200)"

subsection \<open>Values for the examples\<close>

text \<open>
  What \<^verbatim>\<open>toISOString\<close> gives for the instants that the examples of this theory use,
  and the time value of \<^verbatim>\<open>new Date(text)\<close> for these texts; the last line of each
  stands for the instant \<open>3600000\<close>.
\<close>

definition toISOString_examples :: to_iso where
  "toISOString_examples t =
     (if t = 0 then ''1970-01-01T00:00:00.000Z''
      else if t = 1000 then ''1970-01-01T00:00:01.000Z''
      else if t = 2000 then ''1970-01-01T00:00:02.000Z''
      else ''1970-01-01T01:00:00.000Z'')"

definition newDate_examples :: from_iso where
  "newDate_examples s =
     (if s = ''1970-01-01T00:00:00.000Z'' then 0
      else if s = ''1970-01-01T00:00:01.000Z'' then 1000
      else if s = ''1970-01-01T00:00:02.000Z'' then 2000
      else 3600000)"

definition session_example :: session where
  "session_example =
     \<lparr> sessionId = ''session_5_abc'',
       taskDescription = ''build a chat app'',
       questions = getFallbackQuestions,
       responses = [],
       createdAt = 0,
       lastUpdated = 1000 \<rparr>"


definition store_example :: store where
  "store_example =
     \<lparr> sessions = [(''session_5_abc'', session_example)],
       sessionTimeout = 3600000,
       files = Map.empty \<rparr>"


definition ops_example :: "store_op list" where
  "ops_example =
     [Create True 5 ''abc'' 0 1000 ''build a chat app'' getFallbackQuestions,
      Answer True 2000 ''session_5_abc'' ''q1'' ''Python'',
      Answer True 2000 ''session_5_abc'' ''q9'' ''Python'',
      Restart [''session_5_abc.json''],
      Tick (\<lambda>f. True) 3000]"

definition three_example :: session where
  "three_example =
     \<lparr> sessionId = ''session_7_def'',
       taskDescription = ''build a chat app'',
       questions = take 3 getFallbackQuestions,
       responses = [(''q1'', ''Python''), (''q2'', ''Web application'')],
       createdAt = 0,
       lastUpdated = 2000 \<rparr>"

definition store_three :: store where
  "store_three =
     \<lparr> sessions = [(''session_7_def'', three_example)],
       sessionTimeout = 3600000,
       files = Map.empty \<rparr>"


section \<open>Properties of the question extractor\<close>

subsection \<open>The span that is decoded\<close>

lemma dropWhile_trim_nb:
  assumes "\<And>c. P c \<Longrightarrow> c \<noteq> b"
  shows "dropWhile (\<lambda>c. c \<noteq> b) (dropWhile P s) = dropWhile (\<lambda>c. c \<noteq> b) s"
  using assms by (induction s) auto

lemma is_space_not_brace: "is_space c \<Longrightarrow> c \<noteq> CHR ''{'' \<and> c \<noteq> CHR ''}''"
  by (auto simp: is_space_def)

lemma set_dropWhile_append: "set (dropWhile P ys) \<subseteq> set (dropWhile P (xs @ ys))"
  by (induction xs) (auto dest: set_dropWhileD)

lemma dropWhile_skip:
  "\<forall>x\<in>set xs. P x \<Longrightarrow> \<not> P y \<Longrightarrow> dropWhile P (xs @ y # ys) = y # ys"
  by (induction xs) auto

lemma jsonMatch_append_nobrace:
  assumes "CHR ''{'' \<notin> set t" "CHR ''}'' \<notin> set t"
  shows "jsonMatch (c @ t) = jsonMatch c"
proof (cases "CHR ''{'' \<in> set c")
  case True
  then have 1: "dropWhile (\<lambda>x. x \<noteq> CHR ''{'') (c @ t) = dropWhile (\<lambda>x. x \<noteq> CHR ''{'') c @ t"
    by (simp add: dropWhile_append1)
  have 2: "dropWhile (\<lambda>x. x \<noteq> CHR ''}'') (rev t @ ys) = dropWhile (\<lambda>x. x \<noteq> CHR ''}'') ys" for ys
    using assms(2) by (intro dropWhile_append2) auto
  show ?thesis using assms(2) by (simp add: jsonMatch_def Let_def 1 2)
next
  case False
  then have e: "dropWhile (\<lambda>x. x \<noteq> CHR ''{'') (c @ t) = []" "dropWhile (\<lambda>x. x \<noteq> CHR ''{'') c = []"
    using assms(1) unfolding dropWhile_eq_Nil_conv by auto
  show ?thesis unfolding jsonMatch_def Let_def e by simp
qed

lemma jsonMatch_None_iff:
  "jsonMatch s = None \<longleftrightarrow> (\<forall>pre mid post. s \<noteq> pre @ CHR ''{'' # mid @ CHR ''}'' # post)"
proof
  assume n: "jsonMatch s = None"
  show "\<forall>pre mid post. s \<noteq> pre @ CHR ''{'' # mid @ CHR ''}'' # post"
  proof (intro allI notI)
    fix pre mid post
    assume s: "s = pre @ CHR ''{'' # mid @ CHR ''}'' # post"
    have "CHR ''}'' \<in> set (dropWhile (\<lambda>c. c \<noteq> CHR ''{'') (CHR ''{'' # mid @ CHR ''}'' # post))"
      by simp
    then have "CHR ''}'' \<in> set (dropWhile (\<lambda>c. c \<noteq> CHR ''{'') s)"
      unfolding s using set_dropWhile_append[of "\<lambda>c. c \<noteq> CHR ''{''" "CHR ''{'' # mid @ CHR ''}'' # post" pre] by blast
    with n show False by (simp add: jsonMatch_def Let_def)
  qed
next
  assume a: "\<forall>pre mid post. s \<noteq> pre @ CHR ''{'' # mid @ CHR ''}'' # post"
  show "jsonMatch s = None"
  proof (rule ccontr)
    assume "jsonMatch s \<noteq> None"
    then have m: "CHR ''}'' \<in> set (dropWhile (\<lambda>c. c \<noteq> CHR ''{'') s)"
      by (auto simp: jsonMatch_def Let_def split: if_splits)
    then have ne: "dropWhile (\<lambda>c. c \<noteq> CHR ''{'') s \<noteq> []"
      by (auto simp del: dropWhile_eq_Nil_conv)
    from hd_dropWhile[OF ne] have "hd (dropWhile (\<lambda>c. c \<noteq> CHR ''{'') s) = CHR ''{''" by simp
    with ne obtain r where r: "dropWhile (\<lambda>c. c \<noteq> CHR ''{'') s = CHR ''{'' # r"
      by (cases "dropWhile (\<lambda>c. c \<noteq> CHR ''{'') s") auto
    with m have "CHR ''}'' \<in> set r" by auto
    then obtain mid post where "r = mid @ CHR ''}'' # post" by (meson split_list)
    with r have "s = takeWhile (\<lambda>c. c \<noteq> CHR ''{'') s @ CHR ''{'' # mid @ CHR ''}'' # post"
      using takeWhile_dropWhile_id[of "\<lambda>c. c \<noteq> CHR ''{''" s] by simp
    with a show False by blast
  qed
qed

lemma jsonMatch_Some:
  assumes "CHR ''{'' \<notin> set pre" "CHR ''}'' \<notin> set post"
  shows "jsonMatch (pre @ CHR ''{'' # mid @ CHR ''}'' # post) = Some (CHR ''{'' # mid @ [CHR ''}''])"
proof -
  have 1: "dropWhile (\<lambda>c. c \<noteq> CHR ''{'') (pre @ CHR ''{'' # mid @ CHR ''}'' # post) = CHR ''{'' # mid @ CHR ''}'' # post"
    using assms(1) by (intro dropWhile_skip) auto
  have 2: "rev (CHR ''{'' # mid @ CHR ''}'' # post) = rev post @ CHR ''}'' # rev mid @ [CHR ''{'']" by simp
  have 3: "dropWhile (\<lambda>c. c \<noteq> CHR ''}'') (rev post @ CHR ''}'' # rev mid @ [CHR ''{'']) = CHR ''}'' # rev mid @ [CHR ''{'']"
    using assms(2) by (intro dropWhile_skip) auto
  show ?thesis unfolding jsonMatch_def Let_def 1 2 3 by simp
qed

lemma jsonMatch_dropWhile:
  assumes "\<And>c. P c \<Longrightarrow> c \<noteq> CHR ''{'' \<and> c \<noteq> CHR ''}''"
  shows "jsonMatch (dropWhile P s) = jsonMatch s"
  using assms by (simp add: jsonMatch_def dropWhile_trim_nb)

lemma jsonMatch_rev_dropWhile:
  assumes "\<And>c. P c \<Longrightarrow> c \<noteq> CHR ''{'' \<and> c \<noteq> CHR ''}''"
  shows "jsonMatch (rev (dropWhile P (rev s))) = jsonMatch s"
proof -
  have "rev (takeWhile P (rev s) @ dropWhile P (rev s)) = rev (rev s)"
    by (simp only: takeWhile_dropWhile_id)
  then have s: "s = rev (dropWhile P (rev s)) @ rev (takeWhile P (rev s))"
    by (simp only: rev_append rev_rev_ident)
  have "\<forall>c\<in>set (rev (takeWhile P (rev s))). P c"
    by (auto dest: set_takeWhileD)
  then have "CHR ''{'' \<notin> set (rev (takeWhile P (rev s)))" "CHR ''}'' \<notin> set (rev (takeWhile P (rev s)))"
    using assms by blast+
  from jsonMatch_append_nobrace[OF this, of "rev (dropWhile P (rev s))"] s show ?thesis by simp
qed

lemma jsonMatch_trim: "jsonMatch (trim s) = jsonMatch s"
  unfolding trim_def by (simp add: jsonMatch_rev_dropWhile jsonMatch_dropWhile is_space_not_brace)

text \<open>
  Claim C9, as the code has it.  When the text has no closing brace after an opening
  brace, extraction fails with \<open>NoJsonFound\<close>.  Otherwise the span from the first opening
  brace to the last closing brace is the one text given to the decoder, and the result is
  the decoder's failure or what \<open>fromParsed\<close> makes of the decoded value.
\<close>

theorem extract_decodes_first_open_to_last_close:
  "((\<forall>pre mid post. jsonText \<noteq> pre @ CHR ''{'' # mid @ CHR ''}'' # post)
       \<longrightarrow> extractQuestions JSON_parse jsonText = Inl NoJsonFound)
   \<and> (jsonText = pre @ CHR ''{'' # mid @ CHR ''}'' # post \<and> CHR ''{'' \<notin> set pre \<and> CHR ''}'' \<notin> set post
       \<longrightarrow> extractQuestions JSON_parse jsonText =
             (case JSON_parse (CHR ''{'' # mid @ [CHR ''}'']) of
                None \<Rightarrow> Inl SyntaxError
              | Some parsed \<Rightarrow> fromParsed parsed))"
proof (intro conjI impI)
  assume "\<forall>pre mid post. jsonText \<noteq> pre @ CHR ''{'' # mid @ CHR ''}'' # post"
  then have "jsonMatch jsonText = None" by (rule iffD2[OF jsonMatch_None_iff])
  then show "extractQuestions JSON_parse jsonText = Inl NoJsonFound"
    by (simp add: extractQuestions_def jsonMatch_trim)
next
  assume a: "jsonText = pre @ CHR ''{'' # mid @ CHR ''}'' # post \<and> CHR ''{'' \<notin> set pre \<and> CHR ''}'' \<notin> set post"
  then have "jsonMatch jsonText = Some (CHR ''{'' # mid @ [CHR ''}''])"
    using jsonMatch_Some[of pre post mid] by blast
  then show "extractQuestions JSON_parse jsonText =
             (case JSON_parse (CHR ''{'' # mid @ [CHR ''}'']) of
                None \<Rightarrow> Inl SyntaxError
              | Some parsed \<Rightarrow> fromParsed parsed)"
    by (simp add: extractQuestions_def jsonMatch_trim)
qed

theorem extract_decodes_first_open_to_last_close_witness:
  \<open>extractQuestions JSON_parse_examples ''no object here'' = Inl NoJsonFound
   \<and> extractQuestions JSON_parse_examples ''Sure: {"questions":[]} Done.'' = Inr []\<close>
proof -
  have n: \<open>jsonMatch ''no object here'' = None\<close> by code_simp
  have a: \<open>\<forall>pre mid post. ''no object here'' \<noteq> pre @ CHR ''{'' # mid @ CHR ''}'' # post\<close>
    using n by (rule iffD1[OF jsonMatch_None_iff])
  have b: \<open>''Sure: {"questions":[]} Done.'' = ''Sure: '' @ CHR ''{'' # ''"questions":[]'' @ CHR ''}'' # '' Done.''
      \<and> CHR ''{'' \<notin> set ''Sure: '' \<and> CHR ''}'' \<notin> set '' Done.''\<close> by simp
  have c: \<open>(case JSON_parse_examples (CHR ''{'' # ''"questions":[]'' @ [CHR ''}'']) of
                None \<Rightarrow> Inl SyntaxError
              | Some parsed \<Rightarrow> fromParsed parsed) = Inr []\<close> by code_simp
  note t1 = extract_decodes_first_open_to_last_close[where jsonText = \<open>''no object here''\<close>
      and JSON_parse = JSON_parse_examples]
  have 1: \<open>extractQuestions JSON_parse_examples ''no object here'' = Inl NoJsonFound\<close>
    by (rule mp[OF conjunct1[OF t1] a])
  note t2 = extract_decodes_first_open_to_last_close[where jsonText = \<open>''Sure: {"questions":[]} Done.''\<close>
      and JSON_parse = JSON_parse_examples and pre = \<open>''Sure: ''\<close>
      and mid = \<open>''"questions":[]''\<close> and post = \<open>'' Done.''\<close>]
  have 2: \<open>extractQuestions JSON_parse_examples ''Sure: {"questions":[]} Done.'' = Inr []\<close>
    using mp[OF conjunct2[OF t2] b] unfolding c .
  from 1 2 show ?thesis by (rule conjI)
qed

text \<open>
  Claim C9 as stated fails: the span that is decoded runs to the last closing brace of the
  text, not to the brace matching the first opening brace, so an object after the first
  one changes the span.
\<close>

theorem span_counterexample:
  \<open>balanced_span_spec ''{"a":1} and {"b":2}'' = Some ''{"a":1}''
   \<and> jsonMatch (trim ''{"a":1} and {"b":2}'') = Some ''{"a":1} and {"b":2}''
   \<and> jsonMatch (trim ''{"a":1}'') = Some ''{"a":1}''\<close>
  by code_simp

subsection \<open>The questions that are returned\<close>

lemma toQuestion_Inr_iff:
  "toQuestion i e = Inr q \<longleftrightarrow>
     (\<exists>a t c os. get_prop e ''id'' = Inr a \<and> get_prop e ''text'' = Inr t \<and>
        get_prop e ''category'' = Inr c \<and> get_prop e ''options'' = Inr os \<and>
        q = \<lparr> id_q = or_else a (JStr (''q'' @ show_nat (i + 1))), text_q = t,
              category = or_else c (JStr ''other''), options = or_else os (JArr []) \<rparr>)"
  by (auto simp: toQuestion_def split: sum.splits)

lemma mapQuestions_length: "mapQuestions i es = Inr qs \<Longrightarrow> length qs = length es"
  by (induction es arbitrary: i qs) (auto split: sum.splits)

lemma mapQuestions_nth:
  "mapQuestions i es = Inr qs \<Longrightarrow> k < length es \<Longrightarrow> toQuestion (i + k) (es ! k) = Inr (qs ! k)"
proof (induction es arbitrary: i qs k)
  case Nil
  then show ?case by simp
next
  case (Cons e es)
  from Cons.prems(1) obtain x xs where x: "toQuestion i e = Inr x"
    and xs: "mapQuestions (Suc i) es = Inr xs" and qs: "qs = x # xs"
    by (auto split: sum.splits)
  show ?case
  proof (cases k)
    case 0
    with x qs show ?thesis by simp
  next
    case (Suc n)
    with Cons.prems(2) have "n < length es" by simp
    from Cons.IH[OF xs this] Suc qs show ?thesis by simp
  qed
qed

lemma fromParsed_Inr_iff:
  "fromParsed parsed = Inr qs \<longleftrightarrow>
     (\<exists>entries. get_prop parsed ''questions'' = Inr (JArr entries) \<and> mapQuestions 0 entries = Inr qs)"
  by (auto simp: fromParsed_def isArray_def split: sum.splits jsval.splits)

lemma extractQuestions_Inr_iff:
  "extractQuestions P jsonText = Inr qs \<longleftrightarrow>
     (\<exists>matched parsed entries. jsonMatch (trim jsonText) = Some matched \<and> P matched = Some parsed \<and>
        get_prop parsed ''questions'' = Inr (JArr entries) \<and> mapQuestions 0 entries = Inr qs)"
  by (auto simp: extractQuestions_def fromParsed_Inr_iff split: option.splits)







text \<open>
  Claim C2, as the code has it.  When extraction succeeds, the returned list has one
  question for each decoded entry, in order, and the category of each is the decoded
  category when that is truthy, kept as it is, and \<^verbatim>\<open>other\<close> when it is absent or
  falsy.  So every category is one of the seven values when every decoded category is
  absent, falsy or one of the seven.
\<close>

theorem category_kept_or_other:
  assumes "extractQuestions P jsonText = Inr qs"
  shows "\<exists>matched parsed entries.
           jsonMatch (trim jsonText) = Some matched \<and> P matched = Some parsed \<and>
           get_prop parsed ''questions'' = Inr (JArr entries) \<and> length qs = length entries \<and>
           (\<forall>k<length entries. \<exists>c. get_prop (entries ! k) ''category'' = Inr c \<and>
               category (qs ! k) = (if truthy c then c else JStr ''other'')) \<and>
           ((\<forall>k<length entries. \<forall>c. get_prop (entries ! k) ''category'' = Inr c \<longrightarrow>
                 \<not> truthy c \<or> c \<in> closed_categories)
             \<longrightarrow> (\<forall>q\<in>set qs. category q \<in> closed_categories))"
proof -
  from assms obtain matched parsed entries where
    m: "jsonMatch (trim jsonText) = Some matched" "P matched = Some parsed"
       "get_prop parsed ''questions'' = Inr (JArr entries)" and mq: "mapQuestions 0 entries = Inr qs"
    unfolding extractQuestions_Inr_iff by blast
  have len: "length qs = length entries" using mq by (rule mapQuestions_length)
  have cat: "\<exists>c. get_prop (entries ! k) ''category'' = Inr c \<and>
               category (qs ! k) = (if truthy c then c else JStr ''other'')" if "k < length entries" for k
    using mapQuestions_nth[OF mq that] by (auto simp: toQuestion_Inr_iff or_else_def)
  have closed: "\<forall>q\<in>set qs. category q \<in> closed_categories"
    if h: "\<forall>k<length entries. \<forall>c. get_prop (entries ! k) ''category'' = Inr c \<longrightarrow>
                 \<not> truthy c \<or> c \<in> closed_categories"
  proof
    fix q assume "q \<in> set qs"
    then obtain k where k: "k < length qs" "q = qs ! k" by (auto simp: in_set_conv_nth)
    with len have kl: "k < length entries" by simp
    from cat[OF kl] obtain c where c: "get_prop (entries ! k) ''category'' = Inr c"
      "category (qs ! k) = (if truthy c then c else JStr ''other'')" by blast
    from h kl c(1) have "\<not> truthy c \<or> c \<in> closed_categories" by blast
    with c(2) k(2) show "category q \<in> closed_categories"
      by (auto simp: closed_categories_def)
  qed
  from m len cat closed show ?thesis by blast
qed

theorem category_kept_or_other_witness:
  \<open>extractQuestions JSON_parse_examples ''{"questions":[{"id":"q1","text":"Which?"}]}''
     = Inr [\<lparr> id_q = JStr ''q1'', text_q = JStr ''Which?'', category = JStr ''other'', options = JArr [] \<rparr>]
   \<and> (\<exists>matched parsed entries.
           jsonMatch (trim ''{"questions":[{"id":"q1","text":"Which?"}]}'') = Some matched \<and>
           JSON_parse_examples matched = Some parsed \<and>
           get_prop parsed ''questions'' = Inr (JArr entries) \<and> length entries = 1 \<and>
           get_prop (entries ! 0) ''category'' = Inr JUndefined)\<close>
proof -
  have a: \<open>extractQuestions JSON_parse_examples ''{"questions":[{"id":"q1","text":"Which?"}]}''
     = Inr [\<lparr> id_q = JStr ''q1'', text_q = JStr ''Which?'', category = JStr ''other'', options = JArr [] \<rparr>]\<close>
    by code_simp
  have m: \<open>jsonMatch (trim ''{"questions":[{"id":"q1","text":"Which?"}]}'') = Some ''{"questions":[{"id":"q1","text":"Which?"}]}''\<close>
    by code_simp
  have p: \<open>JSON_parse_examples ''{"questions":[{"id":"q1","text":"Which?"}]}''
     = Some (JObj [(''questions'', JArr [JObj [(''id'', JStr ''q1''), (''text'', JStr ''Which?'')]])])\<close>
    by code_simp
  from category_kept_or_other[OF a] obtain matched parsed entries where
    e: \<open>jsonMatch (trim ''{"questions":[{"id":"q1","text":"Which?"}]}'') = Some matched\<close>
       "JSON_parse_examples matched = Some parsed"
       "get_prop parsed ''questions'' = Inr (JArr entries)"
       "length [\<lparr> id_q = JStr ''q1'', text_q = JStr ''Which?'', category = JStr ''other'', options = JArr [] \<rparr>] = length entries"
    by blast
  from e(1) m have mm: \<open>matched = ''{"questions":[{"id":"q1","text":"Which?"}]}''\<close> by simp
  from e(2) p mm have pp: "parsed = JObj [(''questions'', JArr [JObj [(''id'', JStr ''q1''), (''text'', JStr ''Which?'')]])]" by simp
  from e(3) pp have ee: "entries = [JObj [(''id'', JStr ''q1''), (''text'', JStr ''Which?'')]]" by simp
  have "get_prop (entries ! 0) ''category'' = Inr JUndefined" unfolding ee by simp
  with e ee a show ?thesis by auto
qed

text \<open>
  Claim C2 as stated fails: a decoded category outside the enumeration is kept, not
  replaced by \<^verbatim>\<open>other\<close>.
\<close>

theorem category_outside_enumeration_counterexample:
  \<open>extractQuestions JSON_parse_examples ''{"questions":[{"text":"Which?","category":"budget"}]}''
     = Inr [\<lparr> id_q = JStr ''q1'', text_q = JStr ''Which?'', category = JStr ''budget'', options = JArr [] \<rparr>]
   \<and> JStr ''budget'' \<notin> closed_categories\<close>
  by code_simp

subsection \<open>The fallback set in a stream\<close>











section \<open>Properties of the session store\<close>

subsection \<open>Maps, objects and the operations\<close>

lemma strict_eq_JStr [simp]: "strict_eq a (JStr s) \<longleftrightarrow> a = JStr s"
  by (cases a) auto

lemma find_question_None:
  "find (\<lambda>q. strict_eq (id_q q) (JStr k)) qs = None \<longleftrightarrow> JStr k \<notin> id_q ` set qs"
  by (force simp: find_None_iff image_iff)

lemma set_own_properties [simp]: "set (own_properties xs) = set xs"
  by (auto simp: own_properties_def)

lemma length_own_properties [simp]: "length (own_properties xs) = length xs"
proof -
  have "length (filter (\<lambda>(k, v). array_index k \<noteq> None) xs)
          + length (filter (\<lambda>(k, v). array_index k = None) xs) = length xs"
    by (induction xs) auto
  then show ?thesis unfolding own_properties_def by simp
qed



lemma update_fresh: "k \<notin> fst ` set acc \<Longrightarrow> AList.update k v acc = acc @ [(k, v)]"
  by (induction acc) auto

lemma foldl_update_distinct:
  "distinct (map fst (acc @ es)) \<Longrightarrow> foldl (\<lambda>m (k, v). AList.update k v m) acc es = acc @ es"
proof (induction es arbitrary: acc)
  case Nil
  then show ?case by simp
next
  case (Cons e es)
  obtain k v where e: "e = (k, v)" by (cases e)
  from Cons.prems have "k \<notin> fst ` set acc" by (auto simp: e)
  then have u: "AList.update k v acc = acc @ [(k, v)]" by (rule update_fresh)
  from Cons.prems have "distinct (map fst ((acc @ [(k, v)]) @ es))" by (simp add: e)
  from Cons.IH[OF this] show ?case by (simp add: e u)
qed

lemma distinct_foldl_update:
  "distinct (map fst acc) \<Longrightarrow> distinct (map fst (foldl (\<lambda>m (k, v). AList.update k v m) acc es))"
  by (induction es arbitrary: acc) (auto simp: distinct_update)


lemma Object_fromEntries_distinct:
  "distinct (map fst es) \<Longrightarrow> Object_fromEntries es = own_properties es"
  using foldl_update_distinct[of "[]" es] by (simp add: Object_fromEntries_def)


lemma keys_foldl_update:
  "fst ` set (foldl (\<lambda>m (k, v). AList.update k v m) acc es) = fst ` set acc \<union> fst ` set es"
proof (induction es arbitrary: acc)
  case Nil
  then show ?case by simp
next
  case (Cons e es)
  obtain k v where e: "e = (k, v)" by (cases e)
  have "fst ` set (AList.update k v acc) = insert k (fst ` set acc)"
    by (induction acc) auto
  with Cons.IH[of "AList.update k v acc"] show ?case by (auto simp: e)
qed

lemma keys_Object_fromEntries [simp]: "fst ` set (Object_fromEntries es) = fst ` set es"
  by (simp add: Object_fromEntries_def keys_foldl_update)

lemma keys_new_Map [simp]: "fst ` set (new_Map es) = fst ` set es"
  by (simp add: new_Map_def keys_foldl_update)

lemma keys_Object_entries [simp]: "fst ` set (Object_entries es) = fst ` set es"
  by (simp add: Object_entries_def)

lemma set_update_subset: "set (AList.update k v xs) \<subseteq> insert (k, v) (set xs)"
  by (induction xs) auto

lemma list_all_update:
  "P (k, v) \<Longrightarrow> list_all P xs \<Longrightarrow> list_all P (AList.update k v xs)"
  using set_update_subset[of k v xs] by (auto simp: list_all_iff)

lemma keys_update: "fst ` set (AList.update k v xs) = insert k (fst ` set xs)"
  by (induction xs) auto


lemma json_property_JStr [simp]: "json_property v = JStr s \<longleftrightarrow> v = JStr s"
  by (cases v) (auto simp: json_property_def split: jsnum.splits)

lemma stored_question_id [simp]: "id_q (stored_question q) = JStr k \<longleftrightarrow> id_q q = JStr k"
  by (simp add: stored_question_def)

lemma stored_ids [simp]:
  "JStr k \<in> id_q ` stored_question ` set qs \<longleftrightarrow> JStr k \<in> id_q ` set qs"
proof
  assume "JStr k \<in> id_q ` stored_question ` set qs"
  then obtain q where "q \<in> set qs" "id_q (stored_question q) = JStr k" by force
  then show "JStr k \<in> id_q ` set qs" by (force simp: image_iff)
next
  assume "JStr k \<in> id_q ` set qs"
  then obtain q where "q \<in> set qs" "id_q q = JStr k" by force
  then have "id_q (stored_question q) = JStr k" by simp
  with \<open>q \<in> set qs\<close> show "JStr k \<in> id_q ` stored_question ` set qs"
    by (metis imageI)
qed

lemma declared_question_stored: "declared_question q \<Longrightarrow> stored_question q = q"
proof -
  assume "declared_question q"
  then obtain i t c os where q: "q = \<lparr> id_q = JStr i, text_q = JStr t, category = JStr c,
                          options = JArr (map JStr os) \<rparr>"
    unfolding declared_question_def by blast
  have "map json_roundtrip (map JStr os) = map JStr os" by (induction os) simp_all
  then show ?thesis by (simp add: q stored_question_def json_property_def)
qed

lemma declared_questions_json: "list_all declared_question qs \<Longrightarrow> json_questions qs"
  unfolding json_questions_def by (induction qs) (simp_all add: declared_question_stored)

lemma sessions_saveSession [simp]: "sessions (saveSession written toISOString s st) = sessions st"
  by (simp add: saveSession_def)

lemma addResponse_cases:
  "addResponse written toISOString now sid questionId answer st =
     (case map_of (sessions st) sid of
        None \<Rightarrow> (False, st)
      | Some s \<Rightarrow>
          if JStr questionId \<in> id_q ` set (questions s)
          then (True,
                saveSession written toISOString
                  (s\<lparr> responses := AList.update questionId answer (responses s), lastUpdated := now \<rparr>)
                  (st\<lparr> sessions := AList.update sid
                         (s\<lparr> responses := AList.update questionId answer (responses s), lastUpdated := now \<rparr>)
                         (sessions st) \<rparr>))
          else (False, st))"
proof (cases "map_of (sessions st) sid")
  case None
  then show ?thesis by (simp add: addResponse_def)
next
  case (Some s)
  show ?thesis
  proof (cases "find (\<lambda>q. strict_eq (id_q q) (JStr questionId)) (questions s)")
    case None
    with Some show ?thesis
      using find_question_None[of questionId "questions s"] by (simp add: addResponse_def)
  next
    case (Some q)
    with \<open>map_of (sessions st) sid = Some s\<close> show ?thesis
      using find_question_None[of questionId "questions s"] by (simp add: addResponse_def Let_def)
  qed
qed

lemma addResponse_success_context:
  assumes "addResponse written toISOString now sid questionId answer st = (True, st')"
  shows "\<exists>s'. map_of (sessions st') sid = Some s'"
  using assms unfolding addResponse_cases
  by (auto simp: saveSession_def AList.update_conv' split: option.splits if_splits)

lemma sweep_timeout [simp]: "sessionTimeout (sweep u now es st) = sessionTimeout st"
  by (induction es arbitrary: st) (auto split: prod.splits)

lemma sweep_sessions:
  "sessions (sweep u now es st) =
     filter (\<lambda>(k, s). \<not> (\<exists>s'. (k, s') \<in> set es \<and> now - lastUpdated s' > sessionTimeout st)) (sessions st)"
proof (induction es arbitrary: st)
  case Nil
  then show ?case by simp
next
  case (Cons e es)
  obtain k s where e: "e = (k, s)" by (cases e)
  show ?case
  proof (cases "now - lastUpdated s > sessionTimeout st")
    case True
    have "sessions (sweep u now (e # es) st) =
          filter (\<lambda>(k', s). \<not> (\<exists>s'. (k', s') \<in> set es \<and> now - lastUpdated s' > sessionTimeout st))
            (AList.delete k (sessions st))"
      using True by (simp add: e Cons.IH)
    also have "\<dots> = filter (\<lambda>(k', s). \<not> (\<exists>s'. (k', s') \<in> set (e # es) \<and> now - lastUpdated s' > sessionTimeout st)) (sessions st)"
      using True by (auto simp: e AList.delete_eq intro!: filter_cong)
    finally show ?thesis .
  next
    case False
    then show ?thesis by (auto simp: e Cons.IH intro!: filter_cong)
  qed
qed

lemma sweep_files:
  "files (sweep u now es st) f =
     (if \<exists>k s. (k, s) \<in> set es \<and> now - lastUpdated s > sessionTimeout st \<and> f = k @ ''.json'' \<and> u f
      then None else files st f)"
proof (induction es arbitrary: st)
  case Nil
  then show ?case by simp
next
  case (Cons e es)
  obtain k s where e: "e = (k, s)" by (cases e)
  show ?case by (auto simp: e Cons.IH)
qed

lemma map_of_filter_keys:
  "distinct (map fst xs) \<Longrightarrow> map_of (filter (\<lambda>(k, v). P k) xs) k = (if P k then map_of xs k else None)"
  by (induction xs) (auto simp: map_of_eq_None_iff image_iff)


lemma sessionId_fromFile [simp]: "sessionId (fromFile newDate d) = sessionId_f d"
  by (simp add: fromFile_def)

lemma get_example: "getSession ''session_5_abc'' store_example = Some session_example"
  by (simp add: getSession_def store_example_def)

lemma get_example_none: "getSession ''session_6_xyz'' store_example = None"
  by (simp add: getSession_def store_example_def)

lemma ids_example:
  "id_q ` set (questions session_example) = {JStr ''q1'', JStr ''q2'', JStr ''q3'', JStr ''q4'', JStr ''q5''}"
  by (simp add: session_example_def getFallbackQuestions_def)

subsection \<open>Recording an answer\<close>

text \<open>
  Claim C4.  \<open>addResponse\<close> is a total function to a boolean and a store.  It returns
  \<open>False\<close> and the store unchanged, sessions and files alike, when no session has the id
  or when no question of the session has the question id.  Otherwise it returns \<open>True\<close>; the
  answer mapping of the session then maps the question id to the answer, in place of any
  earlier answer, and is unchanged at other keys; the last-modified time is the time of the
  call; the other sessions are unchanged; and the file of the session is rewritten when the
  write succeeds.
\<close>

theorem addResponse_not_found_or_written:
  "(case getSession sid st of
      None \<Rightarrow> addResponse written toISOString now sid questionId answer st = (False, st)
    | Some s \<Rightarrow>
        if JStr questionId \<notin> id_q ` set (questions s)
        then addResponse written toISOString now sid questionId answer st = (False, st)
        else fst (addResponse written toISOString now sid questionId answer st) = True
           \<and> sessions (snd (addResponse written toISOString now sid questionId answer st))
               = AList.update sid
                   (s\<lparr> responses := AList.update questionId answer (responses s), lastUpdated := now \<rparr>)
                   (sessions st)
           \<and> map_of (AList.update questionId answer (responses s))
               = (map_of (responses s))(questionId \<mapsto> answer)
           \<and> getSession sid (snd (addResponse written toISOString now sid questionId answer st))
               = Some (s\<lparr> responses := AList.update questionId answer (responses s), lastUpdated := now \<rparr>)
           \<and> (\<forall>other. other \<noteq> sid \<longrightarrow>
                 getSession other (snd (addResponse written toISOString now sid questionId answer st))
                   = getSession other st)
           \<and> files (snd (addResponse written toISOString now sid questionId answer st))
               = (if written
                  then (files st)(sessionId s @ ''.json'' \<mapsto>
                         Document (toFile toISOString
                           (s\<lparr> responses := AList.update questionId answer (responses s),
                               lastUpdated := now \<rparr>)))
                  else files st))"
proof (cases "getSession sid st")
  case None
  then show ?thesis by (simp add: getSession_def addResponse_def)
next
  case (Some s)
  show ?thesis
  proof (cases "JStr questionId \<in> id_q ` set (questions s)")
    case False
    then have "find (\<lambda>q. strict_eq (id_q q) (JStr questionId)) (questions s) = None"
      by (rule iffD2[OF find_question_None])
    with Some False show ?thesis by (simp add: getSession_def addResponse_def)
  next
    case True
    then obtain q where "find (\<lambda>q. strict_eq (id_q q) (JStr questionId)) (questions s) = Some q"
      using find_question_None[of questionId "questions s"] by (cases "find (\<lambda>q. strict_eq (id_q q) (JStr questionId)) (questions s)") auto
    with Some True show ?thesis
      by (simp add: getSession_def addResponse_def Let_def saveSession_def AList.update_conv')
  qed
qed

theorem addResponse_not_found_or_written_witness:
  "addResponse True toISOString_examples 2000 ''session_6_xyz'' ''q1'' ''Python'' store_example
     = (False, store_example)
   \<and> addResponse True toISOString_examples 2000 ''session_5_abc'' ''q9'' ''Python'' store_example
     = (False, store_example)
   \<and> fst (addResponse True toISOString_examples 2000 ''session_5_abc'' ''q1'' ''Python'' store_example)
     = True
   \<and> getSession ''session_5_abc''
       (snd (addResponse True toISOString_examples 2000 ''session_5_abc'' ''q1'' ''Python'' store_example))
     = Some (session_example\<lparr> responses := [(''q1'', ''Python'')], lastUpdated := 2000 \<rparr>)"
proof -
  note a = addResponse_not_found_or_written[where st = store_example and written = True
      and toISOString = toISOString_examples and now = 2000 and answer = "''Python''"]
  have 1: "addResponse True toISOString_examples 2000 ''session_6_xyz'' ''q1'' ''Python'' store_example
     = (False, store_example)"
    using a[where sid = "''session_6_xyz''" and questionId = "''q1''"]
    by (simp only: get_example_none option.case)
  have 2: "addResponse True toISOString_examples 2000 ''session_5_abc'' ''q9'' ''Python'' store_example
     = (False, store_example)"
    using a[where sid = "''session_5_abc''" and questionId = "''q9''"]
    by (simp add: get_example ids_example)
  have r: "responses session_example = []" by (simp add: session_example_def)
  have 3: "fst (addResponse True toISOString_examples 2000 ''session_5_abc'' ''q1'' ''Python'' store_example)
     = True
   \<and> getSession ''session_5_abc''
       (snd (addResponse True toISOString_examples 2000 ''session_5_abc'' ''q1'' ''Python'' store_example))
     = Some (session_example\<lparr> responses := [(''q1'', ''Python'')], lastUpdated := 2000 \<rparr>)"
    using a[where sid = "''session_5_abc''" and questionId = "''q1''"]
    by (simp add: get_example ids_example r)
  from 1 2 3 show ?thesis by (intro conjI) simp_all
qed

subsection \<open>The invariant of the answers\<close>

lemma answers_in_questions_keys:
  "answers_in_questions xs qs \<longleftrightarrow> (\<forall>k\<in>fst ` set xs. JStr k \<in> id_q ` set qs)"
  by (force simp: answers_in_questions_def list_all_iff list_ex_iff image_iff)

lemma answers_in_questions_Nil [simp]: "answers_in_questions [] qs"
  by (simp add: answers_in_questions_def)

lemma file_inv_toFile:
  "file_answers_in_questions (Document (toFile toISOString s)) \<longleftrightarrow>
     answers_in_questions (responses s) (questions s)"
  by (simp add: file_answers_in_questions_def toFile_def answers_in_questions_keys)

lemma answers_fromFile:
  "file_answers_in_questions (Document d) \<Longrightarrow>
     answers_in_questions (responses (fromFile newDate d)) (questions (fromFile newDate d))"
  by (simp add: file_answers_in_questions_def fromFile_def answers_in_questions_keys)

lemma store_inv_saveSession:
  assumes "store_inv st" and "answers_in_questions (responses s) (questions s)"
  shows "store_inv (saveSession written toISOString s st)"
  using assms by (auto simp: store_inv_def saveSession_def file_inv_toFile)

lemma store_inv_set_session:
  assumes "store_inv st" and "answers_in_questions (responses s) (questions s)"
  shows "store_inv (st\<lparr> sessions := AList.update k s (sessions st) \<rparr>)"
  using assms by (auto simp: store_inv_def intro: list_all_update)

lemma store_inv_createSession:
  "store_inv st \<Longrightarrow>
   store_inv (snd (createSession written toISOString now random created updated description qs st))"
  by (simp add: createSession_def Let_def store_inv_saveSession store_inv_set_session)

lemma store_inv_lookup:
  "store_inv st \<Longrightarrow> map_of (sessions st) sid = Some s \<Longrightarrow> answers_in_questions (responses s) (questions s)"
  by (auto simp: store_inv_def list_all_iff dest!: map_of_SomeD)

lemma store_inv_addResponse:
  assumes "store_inv st"
  shows "store_inv (snd (addResponse written toISOString now sid questionId answer st))"
proof (cases "map_of (sessions st) sid")
  case None
  then show ?thesis using assms by (simp add: addResponse_def)
next
  case (Some s)
  show ?thesis
  proof (cases "find (\<lambda>q. strict_eq (id_q q) (JStr questionId)) (questions s)")
    case None
    then show ?thesis using assms Some by (simp add: addResponse_def)
  next
    case (Some q)
    then have "JStr questionId \<in> id_q ` set (questions s)"
      using find_question_None[of questionId "questions s"] by auto
    moreover have "answers_in_questions (responses s) (questions s)"
      using assms \<open>map_of (sessions st) sid = Some s\<close> by (rule store_inv_lookup)
    ultimately have "answers_in_questions (AList.update questionId answer (responses s)) (questions s)"
      by (simp add: answers_in_questions_keys keys_update)
    then show ?thesis
      using assms Some \<open>map_of (sessions st) sid = Some s\<close>
      by (simp add: addResponse_def Let_def store_inv_saveSession store_inv_set_session)
  qed
qed

lemma loadFiles_inv:
  assumes "\<forall>name c. dir name = Some c \<longrightarrow> file_answers_in_questions c"
    and "list_all (\<lambda>(sid, s). answers_in_questions (responses s) (questions s)) loaded"
  shows "list_all (\<lambda>(sid, s). answers_in_questions (responses s) (questions s))
           (loadFiles newDate dir listing loaded)"
  using assms(2)
proof (induction listing arbitrary: loaded)
  case Nil
  then show ?case by simp
next
  case (Cons f rest)
  show ?case
  proof (cases "endsWith f ''.json''")
    case False
    then show ?thesis using Cons by simp
  next
    case True
    show ?thesis
    proof (cases "dir f")
      case None
      then show ?thesis using True Cons.prems by simp
    next
      case (Some c)
      show ?thesis
      proof (cases c)
        case Unreadable
        then show ?thesis using True Some Cons.prems by simp
      next
        case (Document d)
        with Some assms(1) have "file_answers_in_questions (Document d)" by blast
        then have "answers_in_questions (responses (fromFile newDate d)) (questions (fromFile newDate d))"
          by (rule answers_fromFile)
        with Cons.prems have "list_all (\<lambda>(sid, s). answers_in_questions (responses s) (questions s))
           (AList.update (sessionId (fromFile newDate d)) (fromFile newDate d) loaded)"
          by (intro list_all_update) simp_all
        from Cons.IH[OF this] show ?thesis using True Some Document by (simp add: Let_def)
      qed
    qed
  qed
qed

lemma store_inv_loadSessions:
  "store_inv st \<Longrightarrow> store_inv (loadSessions newDate listing st)"
  using loadFiles_inv[of "files st" "sessions st" newDate listing]
  by (simp add: store_inv_def loadSessions_def)

lemma store_inv_startup:
  "store_inv st \<Longrightarrow> store_inv (startup newDate listing (sessionTimeout st) (files st))"
  unfolding startup_def by (rule store_inv_loadSessions) (simp add: store_inv_def)

lemma store_inv_cleanupTick:
  "store_inv st \<Longrightarrow> store_inv (cleanupTick unlinked now st)"
  unfolding store_inv_def cleanupTick_def sweep_sessions sweep_files
  by (auto simp: list_all_iff split: if_splits)

lemma store_inv_empty: "store_inv (empty_store timeoutMs)"
  by (simp add: store_inv_def empty_store_def)

lemma store_inv_apply_op:
  "store_inv st \<Longrightarrow> store_inv (apply_op toISOString newDate op st)"
  by (cases op)
    (simp_all add: store_inv_createSession store_inv_addResponse store_inv_cleanupTick store_inv_startup)

lemma store_inv_run_ops:
  "store_inv st \<Longrightarrow> store_inv (run_ops toISOString newDate ops st)"
  unfolding run_ops_def by (induction ops arbitrary: st) (simp_all add: store_inv_apply_op)

text \<open>
  Claim C5.  The invariant, that every key of an answer mapping is the id of a question of
  the same session, holds of the empty store and is preserved by creation, by answer
  recording, by a start that reloads the files, and by the sweep.  So it holds after every
  run of these operations from the empty store, for every live session.
\<close>

theorem answers_invariant_preserved:
  "store_inv (empty_store timeoutMs)
   \<and> (store_inv st \<longrightarrow>
        store_inv (snd (createSession written toISOString now random created updated description qs st))
      \<and> store_inv (snd (addResponse written toISOString time sid questionId answer st))
      \<and> store_inv (startup newDate listing (sessionTimeout st) (files st))
      \<and> store_inv (cleanupTick unlinked time st))
   \<and> store_inv (run_ops toISOString newDate ops (empty_store timeoutMs))
   \<and> (\<forall>sid s. getSession sid (run_ops toISOString newDate ops (empty_store timeoutMs)) = Some s
        \<longrightarrow> (\<forall>k\<in>fst ` set (responses s). JStr k \<in> id_q ` set (questions s)))"
proof -
  have "\<forall>k\<in>fst ` set (responses s). JStr k \<in> id_q ` set (questions s)"
    if "getSession sid (run_ops toISOString newDate ops (empty_store timeoutMs)) = Some s" for sid s
    using store_inv_lookup[OF store_inv_run_ops[OF store_inv_empty]] that
    unfolding getSession_def answers_in_questions_keys by blast
  then show ?thesis
    by (intro conjI impI allI store_inv_empty store_inv_createSession store_inv_addResponse
        store_inv_startup store_inv_cleanupTick store_inv_run_ops) blast+
qed

theorem answers_invariant_preserved_witness:
  "store_inv (run_ops toISOString_examples newDate_examples ops_example (empty_store 3600000))
   \<and> map (\<lambda>(sid, s). (sid, responses s))
        (sessions (run_ops toISOString_examples newDate_examples ops_example (empty_store 3600000)))
      = [(''session_5_abc'', [(''q1'', ''Python'')])]"
proof -
  have 1: "store_inv (run_ops toISOString_examples newDate_examples ops_example (empty_store 3600000))"
    using answers_invariant_preserved[where toISOString = toISOString_examples
        and newDate = newDate_examples and ops = ops_example and timeoutMs = 3600000]
    by (rule conjunct1[OF conjunct2[OF conjunct2]])
  have 2: "map (\<lambda>(sid, s). (sid, responses s))
        (sessions (run_ops toISOString_examples newDate_examples ops_example (empty_store 3600000)))
      = [(''session_5_abc'', [(''q1'', ''Python'')])]"
    by code_simp
  from 1 2 show ?thesis by (rule conjI)
qed

subsection \<open>Stores that the operations reach\<close>

lemma wf_session_fromFile: "wf_session (fromFile newDate d)"
  by (simp add: wf_session_def fromFile_def new_Map_def distinct_foldl_update)

lemma wf_store_set_session:
  assumes "wf_store st" and "sessionId s = k" and "wf_session s"
  shows "wf_store (st\<lparr> sessions := AList.update k s (sessions st) \<rparr>)"
  using assms by (auto simp: wf_store_def distinct_update intro: list_all_update)

lemma wf_store_saveSession [simp]:
  "wf_store (saveSession written toISOString s st) \<longleftrightarrow> wf_store st"
  by (simp add: wf_store_def)

lemma wf_store_createSession:
  "wf_store st \<Longrightarrow>
   wf_store (snd (createSession written toISOString now random created updated description qs st))"
  by (simp add: createSession_def Let_def wf_store_set_session wf_session_def)

lemma wf_store_addResponse:
  assumes "wf_store st"
  shows "wf_store (snd (addResponse written toISOString now sid questionId answer st))"
proof (cases "map_of (sessions st) sid")
  case None
  then show ?thesis using assms by (simp add: addResponse_cases)
next
  case (Some s)
  with assms have "sessionId s = sid" "wf_session s"
    by (auto simp: wf_store_def list_all_iff dest!: map_of_SomeD)
  then have "wf_session (s\<lparr> responses := AList.update questionId answer (responses s), lastUpdated := now \<rparr>)"
    by (simp add: wf_session_def distinct_update)
  with assms Some \<open>sessionId s = sid\<close> show ?thesis
    by (simp add: addResponse_cases wf_store_set_session)
qed

lemma wf_loadFiles:
  assumes "distinct (map fst loaded)"
    and "list_all (\<lambda>(sid, s). sessionId s = sid \<and> wf_session s) loaded"
  shows "distinct (map fst (loadFiles newDate dir listing loaded))
       \<and> list_all (\<lambda>(sid, s). sessionId s = sid \<and> wf_session s) (loadFiles newDate dir listing loaded)"
  using assms
proof (induction listing arbitrary: loaded)
  case Nil
  then show ?case by simp
next
  case (Cons f rest)
  have step: "distinct (map fst (AList.update (sessionId (fromFile newDate d)) (fromFile newDate d) loaded))
      \<and> list_all (\<lambda>(sid, s). sessionId s = sid \<and> wf_session s)
           (AList.update (sessionId (fromFile newDate d)) (fromFile newDate d) loaded)" for d
    using Cons.prems by (auto simp: distinct_update wf_session_fromFile intro: list_all_update)
  show ?case
    using Cons.prems Cons.IH[OF conjunct1[OF step] conjunct2[OF step]] Cons.IH[OF Cons.prems]
    by (auto simp: Let_def split: option.splits file_content.splits)
qed

lemma wf_store_startup: "wf_store (startup newDate listing timeoutMs dir)"
  using wf_loadFiles[of "[]" newDate dir listing]
  by (simp add: wf_store_def startup_def loadSessions_def)

lemma wf_store_cleanupTick: "wf_store st \<Longrightarrow> wf_store (cleanupTick unlinked now st)"
  unfolding wf_store_def cleanupTick_def sweep_sessions
  by (auto simp: list_all_iff distinct_map_filter)

lemma wf_store_apply_op: "wf_store st \<Longrightarrow> wf_store (apply_op toISOString newDate op st)"
  by (cases op)
    (simp_all add: wf_store_createSession wf_store_addResponse wf_store_cleanupTick wf_store_startup)

lemma wf_store_run_ops:
  "wf_store st \<Longrightarrow> wf_store (run_ops toISOString newDate ops st)"
  unfolding run_ops_def by (induction ops arbitrary: st) (simp_all add: wf_store_apply_op)

lemma wf_store_reachable: "wf_store (run_ops toISOString newDate ops (empty_store timeoutMs))"
  by (rule wf_store_run_ops) (simp add: wf_store_def empty_store_def)

lemma wf_store_lookup:
  "wf_store st \<Longrightarrow> map_of (sessions st) sid = Some s \<Longrightarrow> (sid, s) \<in> set (sessions st) \<and> sessionId s = sid"
  by (auto simp: wf_store_def list_all_iff dest: map_of_SomeD)

lemma wf_store_unique:
  "wf_store st \<Longrightarrow> (sid, s) \<in> set (sessions st) \<Longrightarrow> (sid, s') \<in> set (sessions st) \<Longrightarrow> s' = s"
  by (auto simp: wf_store_def dest: eq_key_imp_eq_value)

subsection \<open>Writing a session and reading it back\<close>





subsection \<open>The expiry sweep\<close>

text \<open>
  Claim C7.  After a tick of the sweep, a session whose last-modified time is more than the
  timeout before the tick is absent from \<open>getSession\<close> and from \<open>getAllSessions\<close>, and its
  file is gone when its \<^verbatim>\<open>unlink\<close> succeeded; a failed \<^verbatim>\<open>unlink\<close> changes nothing else,
  and the tick is a total function of the store.  A session not older than the timeout is
  kept as it is, with its file.
\<close>

theorem cleanupTick_evicts_expired:
  assumes "wf_store st" and "getSession sid st = Some s"
  shows "sessionTimeout (cleanupTick unlinked now st) = sessionTimeout st \<and>
     (if now - lastUpdated s > sessionTimeout st
      then getSession sid (cleanupTick unlinked now st) = None
         \<and> sid \<notin> sessionId_c ` set (getAllSessions toISOString (cleanupTick unlinked now st))
         \<and> (unlinked (sid @ ''.json'') \<longrightarrow> files (cleanupTick unlinked now st) (sid @ ''.json'') = None)
      else getSession sid (cleanupTick unlinked now st) = Some s
         \<and> toTaskContext toISOString s \<in> set (getAllSessions toISOString (cleanupTick unlinked now st))
         \<and> files (cleanupTick unlinked now st) (sid @ ''.json'') = files st (sid @ ''.json''))"
proof -
  let ?st' = "cleanupTick unlinked now st"
  let ?gone = "\<lambda>k. \<exists>s'. (k, s') \<in> set (sessions st) \<and> now - lastUpdated s' > sessionTimeout st"
  from assms have mem: "(sid, s) \<in> set (sessions st)" and sid: "sessionId s = sid"
    using wf_store_lookup by (auto simp: getSession_def)
  from assms(1) have d: "distinct (map fst (sessions st))" by (simp add: wf_store_def)
  have ss: "sessions ?st' = filter (\<lambda>(k, s). \<not> ?gone k) (sessions st)"
    by (simp add: cleanupTick_def sweep_sessions)
  have gone: "?gone sid \<longleftrightarrow> now - lastUpdated s > sessionTimeout st"
    using mem wf_store_unique[OF assms(1) mem] by blast
  have get: "getSession sid ?st' = (if ?gone sid then None else Some s)"
    unfolding getSession_def ss using map_of_filter_keys[OF d, of "\<lambda>k. \<not> ?gone k" sid] assms(2)
    by (simp add: getSession_def)
  have t: "sessionTimeout ?st' = sessionTimeout st" by (simp add: cleanupTick_def)
  show ?thesis
  proof (cases "now - lastUpdated s > sessionTimeout st")
    case True
    have "sid \<notin> sessionId_c ` set (getAllSessions toISOString ?st')"
    proof
      assume "sid \<in> sessionId_c ` set (getAllSessions toISOString ?st')"
      then obtain k s' where ks: "(k, s') \<in> set (sessions ?st')" "sessionId s' = sid"
        by (auto simp: getAllSessions_def toTaskContext_def)
      then have "(k, s') \<in> set (sessions st)" "\<not> ?gone k" by (auto simp: ss)
      moreover from this(1) assms(1) have "sessionId s' = k" by (auto simp: wf_store_def list_all_iff)
      ultimately show False using ks(2) gone True by blast
    qed
    moreover have "unlinked (sid @ ''.json'') \<longrightarrow> files ?st' (sid @ ''.json'') = None"
      using mem True by (auto simp: cleanupTick_def sweep_files)
    ultimately show ?thesis using True get gone t by simp
  next
    case False
    have "(sid, s) \<in> set (sessions ?st')" using mem gone False by (auto simp: ss)
    then have "toTaskContext toISOString s \<in> set (getAllSessions toISOString ?st')"
      by (force simp: getAllSessions_def)
    moreover have "files ?st' (sid @ ''.json'') = files st (sid @ ''.json'')"
    proof -
      have "\<not> (\<exists>k s'. (k, s') \<in> set (sessions st) \<and> now - lastUpdated s' > sessionTimeout st \<and>
                sid @ ''.json'' = k @ ''.json'' \<and> unlinked (sid @ ''.json''))"
        using gone False by auto
      then show ?thesis unfolding cleanupTick_def sweep_files by (simp only: if_False)
    qed
    ultimately show ?thesis using False get gone t by simp
  qed
qed

lemma wf_example: "wf_store (saveSession True toISOString_examples session_example store_example)"
  by (simp add: wf_store_def saveSession_def store_example_def session_example_def wf_session_def)

lemma get_saved_example:
  "getSession ''session_5_abc'' (saveSession True toISOString_examples session_example store_example)
     = Some session_example"
  by (simp add: getSession_def saveSession_def store_example_def)

theorem cleanupTick_evicts_expired_witness:
  "wf_store (saveSession True toISOString_examples session_example store_example)
   \<and> getSession ''session_5_abc''
        (cleanupTick (\<lambda>f. True) 3601001
           (saveSession True toISOString_examples session_example store_example)) = None
   \<and> files (cleanupTick (\<lambda>f. True) 3601001
              (saveSession True toISOString_examples session_example store_example))
        ''session_5_abc.json'' = None
   \<and> files (saveSession True toISOString_examples session_example store_example)
        ''session_5_abc.json'' \<noteq> None
   \<and> getSession ''session_5_abc''
        (cleanupTick (\<lambda>f. True) 3601000
           (saveSession True toISOString_examples session_example store_example))
        = Some session_example"
proof -
  let ?st = "saveSession True toISOString_examples session_example store_example"
  have t: "sessionTimeout ?st = 3600000" "lastUpdated session_example = 1000"
    by (simp_all add: saveSession_def store_example_def session_example_def)
  have f: "files ?st ''session_5_abc.json'' \<noteq> None"
    by (simp add: saveSession_def session_example_def)
  note c = cleanupTick_evicts_expired[OF wf_example get_saved_example,
      where unlinked = "\<lambda>f. True" and toISOString = toISOString_examples]
  have 1: "getSession ''session_5_abc'' (cleanupTick (\<lambda>f. True) 3601001 ?st) = None
       \<and> files (cleanupTick (\<lambda>f. True) 3601001 ?st) ''session_5_abc.json'' = None"
    using c[where now = 3601001] by (simp add: t)
  have 2: "getSession ''session_5_abc'' (cleanupTick (\<lambda>f. True) 3601000 ?st) = Some session_example"
    using c[where now = 3601000] by (simp add: t)
  from wf_example f 1 2 show ?thesis by (intro conjI) simp_all
qed

section \<open>Properties of the request handlers\<close>

subsection \<open>The reported percentage\<close>

lemma round_ties_even_error: "\<bar>of_int (round_ties_even r) - r\<bar> \<le> 1 / 2"
proof -
  define n where "n = \<lfloor>r\<rfloor>"
  have a: "of_int n \<le> r" "r < of_int n + 1" unfolding n_def by linarith+
  show ?thesis
    unfolding round_ties_even_def Let_def n_def[symmetric] using a by (auto simp: abs_if)
qed

lemma binade_lower:
  assumes "0 < x"
  shows "2 powi (binade x) \<le> x"
proof -
  obtain p q where pq: "quotient_of x = (p, q)" by (cases "quotient_of x")
  then have q: "0 < q" using quotient_of_denom_pos by blast
  have x: "x = of_int p / of_int q" using pq by (rule quotient_of_div)
  with assms q have p: "0 < p" by (simp add: zero_less_divide_iff)
  let ?d = "bitlen p - bitlen q"
  show ?thesis
  proof (cases "2 powi ?d \<le> x")
    case True
    then show ?thesis by (simp add: binade_def pq)
  next
    case False
    then have b: "binade x = ?d - 1" by (simp add: binade_def pq)
    from bitlen_bounds[OF p] have lo: "2 ^ nat (bitlen p - 1) \<le> p" by simp
    from bitlen_bounds[OF q] have hi: "q < 2 ^ nat (bitlen q)" by simp
    have bp: "1 \<le> bitlen p" using p by (simp add: bitlen_alt_def)
    have bq: "0 \<le> bitlen q" by (rule bitlen_nonneg)
    have "(2::rat) powi (?d - 1) = 2 powi (bitlen p - 1) / 2 powi bitlen q"
      by (simp add: power_int_diff)
    also have "\<dots> = 2 ^ nat (bitlen p - 1) / 2 ^ nat (bitlen q)"
      using bp bq by (simp add: power_int_def)
    also have "\<dots> \<le> of_int p / of_int q"
    proof -
      have 1: "(2::rat) ^ nat (bitlen p - 1) \<le> of_int p"
        using lo by (metis of_int_le_iff of_int_numeral of_int_power)
      have 2: "(of_int q :: rat) \<le> 2 ^ nat (bitlen q)"
        using hi by (metis less_imp_le of_int_le_iff of_int_numeral of_int_power)
      have 3: "(0::rat) < of_int q" using q by simp
      have 4: "(0::rat) \<le> of_int p" using p by simp
      show ?thesis using 4 1 3 2 by (rule frac_le)
    qed
    finally have "(2::rat) powi (?d - 1) \<le> of_int p / of_int q" .
    then have "2 powi (?d - 1) \<le> x" by (simp only: x)
    then show ?thesis by (simp only: b)
  qed
qed

lemma to_double_error:
  assumes "2 powi (- 1022) \<le> x"
  shows "\<bar>to_double x - x\<bar> \<le> x / 2 ^ 53"
proof -
  have x0: "0 < x" using assms by (rule less_le_trans[rotated]) simp
  define u :: rat where "u = 2 powi (max (binade \<bar>x\<bar>) (- 1022) - 52)"
  have u0: "0 < u" by (simp add: u_def)
  have td: "to_double x = of_int (round_ties_even (x / u)) * u"
    using x0 by (simp add: to_double_def u_def Let_def)
  have "2 powi (max (binade \<bar>x\<bar>) (- 1022)) \<le> x"
    using binade_lower[OF x0] assms x0 by (simp add: max_def)
  then have ux: "u * 2 ^ 52 \<le> x"
    by (simp add: u_def power_int_diff)
  have "to_double x - x = (of_int (round_ties_even (x / u)) - x / u) * u"
    using u0 by (simp add: td field_simps)
  then have "\<bar>to_double x - x\<bar> = \<bar>of_int (round_ties_even (x / u)) - x / u\<bar> * u"
    using u0 by (simp add: abs_mult)
  also have "\<dots> \<le> (1 / 2) * u"
    using round_ties_even_error[of "x / u"] u0 by (intro mult_right_mono) auto
  also have "\<dots> \<le> x / 2 ^ 53"
    using ux by (simp add: field_simps)
  finally show ?thesis .
qed

lemma roundedPercent_aux:
  fixes x \<rho> \<delta> :: rat and q k :: int
  assumes x: "2 powi (- 1022) \<le> x * (1 - 1 / 2 ^ 53)" "x \<le> 1"
    and v: "100 * x = of_int q + \<rho>"
    and d: "1 / 2 ^ 33 < \<delta>"
    and c: "\<rho> + \<delta> \<le> 1 / 2 \<and> 0 \<le> \<rho> \<and> k = 0 \<or> 1 / 2 + \<delta> \<le> \<rho> \<and> \<rho> < 1 \<and> k = 1"
  shows "Math_round (to_double (to_double x * 100)) = q + k"
proof -
  define \<epsilon> :: rat where "\<epsilon> = 1 / 2 ^ 53"
  have eps: "0 < \<epsilon>" "201 * \<epsilon> < 1 / 2 ^ 33" "\<epsilon> < 1" by (simp_all add: \<epsilon>_def)
  have tiny: "(0::rat) < 2 powi (- 1022)" by simp
  have x1: "2 powi (- 1022) \<le> x * (1 - \<epsilon>)" using x(1) by (simp add: \<epsilon>_def)
  have x0: "0 < x"
  proof (rule ccontr)
    assume "\<not> 0 < x"
    then have "x * (1 - \<epsilon>) \<le> 0" using eps(3) by (simp add: mult_nonpos_nonneg)
    with tiny x1 show False by linarith
  qed
  have xeps: "0 \<le> x * \<epsilon>" "x * \<epsilon> \<le> \<epsilon>"
    using x0 x(2) eps(1) by (simp_all add: mult_left_le_one_le)
  have xl: "2 powi (- 1022) \<le> x" using x1 xeps by (simp add: algebra_simps)
  define d1 where "d1 = to_double x"
  have "\<bar>d1 - x\<bar> \<le> x / 2 ^ 53" unfolding d1_def using xl by (rule to_double_error)
  then have e1: "\<bar>d1 - x\<bar> \<le> x * \<epsilon>" by (simp add: \<epsilon>_def)
  have d1l: "x * (1 - \<epsilon>) \<le> d1" using e1 by (simp add: abs_le_iff algebra_simps)
  define y where "y = d1 * 100"
  have d1p: "2 powi (- 1022) \<le> d1" using x1 d1l by linarith
  have yl: "2 powi (- 1022) \<le> y" unfolding y_def using d1p tiny by linarith
  define d2 where "d2 = to_double y"
  have "\<bar>d2 - y\<bar> \<le> y / 2 ^ 53" unfolding d2_def using yl by (rule to_double_error)
  then have e2: "\<bar>d2 - y\<bar> \<le> y * \<epsilon>" by (simp add: \<epsilon>_def)
  have yx: "\<bar>y - 100 * x\<bar> \<le> 100 * \<epsilon>"
    using e1 xeps unfolding y_def by (simp add: abs_le_iff)
  have yu: "y \<le> 101" using yx x(2) eps by (auto simp: abs_le_iff)
  have y0: "0 \<le> y" using yl tiny by linarith
  have ye: "y * \<epsilon> \<le> 101 * \<epsilon>" using yu eps(1) by (simp add: mult_right_mono)
  have err: "\<bar>d2 - 100 * x\<bar> \<le> 201 * \<epsilon>"
    using e2 ye yx by (auto simp: abs_le_iff)
  have lo: "of_int (q + k) \<le> d2 + 1 / 2" and hi: "d2 + 1 / 2 < of_int (q + k) + 1"
    using err eps d c v by (auto simp: abs_le_iff)
  have "\<lfloor>d2 + 1 / 2\<rfloor> = q + k" using lo hi by (rule floor_unique)
  then show ?thesis by (simp add: Math_round_def d2_def y_def d1_def)
qed

lemma roundedPercent_zero: "0 < totalCount \<Longrightarrow> roundedPercent 0 totalCount = Some 0"
proof -
  have "\<lfloor>(1::rat) / 2\<rfloor> = 0" by (simp add: floor_eq_iff)
  then show "0 < totalCount \<Longrightarrow> roundedPercent 0 totalCount = Some 0"
    by (simp add: roundedPercent_def to_double_def Math_round_def)
qed

lemma roundedPercent_nearest:
  assumes "answeredCount \<le> totalCount" and "0 < totalCount" and "totalCount < 2 ^ 32"
    and "2 * ((100 * answeredCount) mod totalCount) \<noteq> totalCount"
  shows "roundedPercent answeredCount totalCount =
           Some (int ((100 * answeredCount) div totalCount)
                 + (if 2 * ((100 * answeredCount) mod totalCount) < totalCount then 0 else 1))"
proof (cases "answeredCount = 0")
  case True
  then show ?thesis using assms(2) by (simp add: roundedPercent_zero)
next
  case False
  define t :: rat where "t = of_nat totalCount"
  define a :: rat where "a = of_nat answeredCount"
  define r where "r = (100 * answeredCount) mod totalCount"
  define q where "q = int ((100 * answeredCount) div totalCount)"
  define \<rho> :: rat where "\<rho> = of_nat r / t"
  define \<delta> :: rat where "\<delta> = 1 / (2 * t)"
  define k :: int where "k = (if 2 * r < totalCount then 0 else 1)"
  define x where "x = a / t"
  have t0: "0 < t" using assms(2) by (simp add: t_def)
  have t1: "1 \<le> t" using assms(2) by (simp add: t_def)
  have tu: "t < 2 ^ 32"
  proof -
    have "(of_nat totalCount :: rat) < of_nat (2 ^ 32)" using assms(3) by (simp only: of_nat_less_iff)
    then show ?thesis by (simp add: t_def)
  qed
  have a1: "1 \<le> a" using False by (simp add: a_def)
  have at: "a \<le> t" using assms(1) by (simp add: a_def t_def)
  have xu: "x \<le> 1" using at t0 by (simp add: x_def)
  have xl: "1 / 2 ^ 32 < x"
  proof -
    have "1 / 2 ^ 32 < 1 / t" using tu t0 by (simp add: field_simps)
    also have "\<dots> \<le> a / t" using a1 t0 by (simp add: divide_right_mono)
    finally show ?thesis by (simp add: x_def)
  qed
  have x1: "2 powi (- 1022) \<le> x * (1 - 1 / 2 ^ 53)"
  proof -
    have "(2::rat) powi (- 1022) \<le> 1 / 2 ^ 33" by (simp add: power_int_minus field_simps)
    also have "\<dots> \<le> x * (1 / 2)" using xl by simp
    also have "\<dots> \<le> x * (1 - 1 / 2 ^ 53)" using xl by (intro mult_left_mono) simp_all
    finally show ?thesis .
  qed
  have "100 * answeredCount = totalCount * ((100 * answeredCount) div totalCount) + r"
    by (simp add: r_def)
  then have "(of_nat (100 * answeredCount) :: rat)
               = of_nat (totalCount * ((100 * answeredCount) div totalCount) + r)"
    by (simp only:)
  then have "100 * a = t * of_int q + of_nat r"
    by (simp add: a_def t_def q_def)
  then have v: "100 * x = of_int q + \<rho>"
    using t0 by (simp add: x_def \<rho>_def field_simps)
  have d: "1 / 2 ^ 33 < \<delta>" using tu t0 by (simp add: \<delta>_def field_simps)
  have rt: "r < totalCount" using assms(2) by (simp add: r_def)
  have ne: "2 * r \<noteq> totalCount" using assms(4) by (simp add: r_def)
  have c: "\<rho> + \<delta> \<le> 1 / 2 \<and> 0 \<le> \<rho> \<and> k = 0 \<or> 1 / 2 + \<delta> \<le> \<rho> \<and> \<rho> < 1 \<and> k = 1"
  proof (cases "2 * r < totalCount")
    case True
    then have "2 * r + 1 \<le> totalCount" by simp
    then have "(of_nat (2 * r + 1) :: rat) \<le> of_nat totalCount" by (simp only: of_nat_le_iff)
    then have "2 * of_nat r + 1 \<le> t" by (simp add: t_def)
    then have "0 \<le> (t - (2 * of_nat r + 1)) / (2 * t)" using t0 by simp
    moreover have "1 / 2 - (\<rho> + \<delta>) = (t - (2 * of_nat r + 1)) / (2 * t)"
      using t0 by (simp add: \<rho>_def \<delta>_def field_simps)
    ultimately have "\<rho> + \<delta> \<le> 1 / 2" by simp
    moreover have "0 \<le> \<rho>" using t0 by (simp add: \<rho>_def)
    ultimately show ?thesis using True by (simp add: k_def)
  next
    case False
    with ne have "totalCount + 1 \<le> 2 * r" by simp
    then have "(of_nat (totalCount + 1) :: rat) \<le> of_nat (2 * r)" by (simp only: of_nat_le_iff)
    then have "t + 1 \<le> 2 * of_nat r" by (simp add: t_def)
    then have "0 \<le> (2 * of_nat r - (t + 1)) / (2 * t)" using t0 by simp
    moreover have "\<rho> - (1 / 2 + \<delta>) = (2 * of_nat r - (t + 1)) / (2 * t)"
      using t0 by (simp add: \<rho>_def \<delta>_def field_simps)
    ultimately have "1 / 2 + \<delta> \<le> \<rho>" by simp
    moreover have "(of_nat r :: rat) < of_nat totalCount" using rt by (simp only: of_nat_less_iff)
    then have "\<rho> < 1" using t0 by (simp add: \<rho>_def t_def)
    ultimately show ?thesis using False by (simp add: k_def)
  qed
  have "Math_round (to_double (to_double x * 100)) = q + k"
    using x1 xu v d c by (rule roundedPercent_aux)
  then show ?thesis
    using assms(2) by (simp add: roundedPercent_def x_def a_def t_def q_def k_def r_def)
qed

lemma context_counts:
  assumes "distinct (map fst (responses s))"
  shows "length (Object_keys (responses_c (toTaskContext toISOString s))) = length (responses s)"
    and "length (questions_c (toTaskContext toISOString s)) = length (questions s)"
  using assms by (simp_all add: toTaskContext_def Object_keys_def Object_fromEntries_distinct)

text \<open>
  Claim C3, as the code has it.  For a live session with \<open>T\<close> questions, \<open>1 \<le> T < 2\<^sup>3\<^sup>2\<close>,
  and \<open>A \<le> T\<close> answers, where \<open>100 * A / T\<close> is not at a half, the percentage that the
  context route, the sessions route and a successful answer route report is \<open>100 * A / T\<close>
  rounded to the nearest integer: \<open>\<lfloor>100 * A / T\<rfloor>\<close>, and one more when the remainder is above
  the half.
\<close>

theorem reported_percentage_is_nearest:
  assumes "getSession sid st = Some s"
    and "distinct (map fst (responses s))"
    and "length (responses s) \<le> length (questions s)"
    and "0 < length (questions s)"
    and "length (questions s) < 2 ^ 32"
    and "2 * ((100 * length (responses s)) mod length (questions s)) \<noteq> length (questions s)"
  shows "apiContext toISOString sid st =
           (200, ContextBody (toTaskContext toISOString s)
                   \<lparr> answered = length (responses s),
                     total = length (questions s),
                     percentage = Some (nearest_percent (length (responses s)) (length (questions s))) \<rparr>)
       \<and> (\<exists>n summaries. apiSessions toISOString st = (200, SessionsBody n summaries) \<and>
             (\<exists>m\<in>set summaries.
                 sessionId_s m = sessionId s \<and> questionsAnswered m = length (responses s) \<and>
                 questionsTotal m = length (questions s) \<and>
                 percentComplete m = Some (nearest_percent (length (responses s)) (length (questions s)))))
       \<and> (\<forall>before response.
             apiAnswer written toISOString now sid questionId answer before = ((200, response), st)
             \<longrightarrow> response =
                   AnswerBody sid questionId answer
                     \<lparr> answered = length (responses s),
                       total = length (questions s),
                       percentage = Some (nearest_percent (length (responses s)) (length (questions s))) \<rparr>
                     (length (responses s) = length (questions s)))"
proof -
  let ?A = "length (responses s)" and ?T = "length (questions s)"
  have p: "roundedPercent ?A ?T = Some (nearest_percent ?A ?T)"
    unfolding nearest_percent_def using assms(3-6) by (rule roundedPercent_nearest)
  note cc = context_counts[OF assms(2), of toISOString]
  have g: "getTaskContext toISOString sid st = Some (toTaskContext toISOString s)"
    using assms(1) by (simp add: getSession_def getTaskContext_def)
  have 1: "apiContext toISOString sid st =
           (200, ContextBody (toTaskContext toISOString s)
                   \<lparr> answered = ?A, total = ?T, percentage = Some (nearest_percent ?A ?T) \<rparr>)"
    by (simp add: apiContext_def g Let_def cc p)
  have sid_c: "sessionId_c (toTaskContext toISOString s) = sessionId s"
    by (simp add: toTaskContext_def)
  have mem: "(sid, s) \<in> set (sessions st)"
    using assms(1) by (auto simp: getSession_def dest: map_of_SomeD)
  have 2: "\<exists>n summaries. apiSessions toISOString st = (200, SessionsBody n summaries) \<and>
             (\<exists>m\<in>set summaries.
                 sessionId_s m = sessionId s \<and> questionsAnswered m = ?A \<and>
                 questionsTotal m = ?T \<and> percentComplete m = Some (nearest_percent ?A ?T))"
  proof -
    let ?f = "\<lambda>session.
                   \<lparr> sessionId_s = sessionId_c session,
                     taskDescription_s = taskDescription_c session,
                     questionsTotal = length (questions_c session),
                     questionsAnswered = length (Object_keys (responses_c session)),
                     percentComplete =
                       roundedPercent (length (Object_keys (responses_c session)))
                         (length (questions_c session)),
                     createdAt_s = createdAt_c session,
                     lastUpdated_s = lastUpdated_c session \<rparr>"
    let ?all = "getAllSessions toISOString st"
    have eq: "apiSessions toISOString st = (200, SessionsBody (length ?all) (map ?f ?all))"
      by (simp add: apiSessions_def Let_def)
    have "toTaskContext toISOString s \<in> set ?all"
      using mem by (force simp: getAllSessions_def)
    then have m: "?f (toTaskContext toISOString s) \<in> set (map ?f ?all)"
      by (simp only: set_map) (rule imageI)
    have fields: "sessionId_s (?f (toTaskContext toISOString s)) = sessionId s \<and>
        questionsAnswered (?f (toTaskContext toISOString s)) = ?A \<and>
        questionsTotal (?f (toTaskContext toISOString s)) = ?T \<and>
        percentComplete (?f (toTaskContext toISOString s)) = Some (nearest_percent ?A ?T)"
      by (simp add: cc p sid_c)
    show ?thesis
      by (rule exI[of _ "length ?all"], rule exI[of _ "map ?f ?all"], rule conjI[OF eq],
          rule bexI[where x = "?f (toTaskContext toISOString s)"], rule fields, rule m)
  qed
  have 3: "response =
                   AnswerBody sid questionId answer
                     \<lparr> answered = ?A, total = ?T, percentage = Some (nearest_percent ?A ?T) \<rparr>
                     (?A = ?T)"
    if "apiAnswer written toISOString now sid questionId answer before = ((200, response), st)"
    for before response
    using that g
    by (auto simp: apiAnswer_def Let_def cc p split: if_splits prod.splits option.splits)
  from 1 2 3 show ?thesis by blast
qed

theorem reported_percentage_is_nearest_witness:
  "getSession ''session_7_def'' store_three = Some three_example
   \<and> apiContext toISOString_examples ''session_7_def'' store_three =
       (200, ContextBody (toTaskContext toISOString_examples three_example)
               \<lparr> answered = 2, total = 3, percentage = Some 67 \<rparr>)
   \<and> nearest_percent 1 3 = 33 \<and> nearest_percent 1 5 = 20"
proof -
  have g: "getSession ''session_7_def'' store_three = Some three_example"
    by (simp add: getSession_def store_three_def)
  have l: "length (responses three_example) = 2" "length (questions three_example) = 3"
    by (simp_all add: three_example_def getFallbackQuestions_def)
  have d: "distinct (map fst (responses three_example))"
    by (simp add: three_example_def)
  have n: "nearest_percent 2 3 = 67" "nearest_percent 1 3 = 33" "nearest_percent 1 5 = 20"
    by (simp_all add: nearest_percent_def)
  have "apiContext toISOString_examples ''session_7_def'' store_three =
       (200, ContextBody (toTaskContext toISOString_examples three_example)
               \<lparr> answered = length (responses three_example),
                 total = length (questions three_example),
                 percentage = Some (nearest_percent (length (responses three_example))
                                      (length (questions three_example))) \<rparr>)"
    by (rule conjunct1[OF reported_percentage_is_nearest[OF g d]]) (simp_all add: l)
  then have "apiContext toISOString_examples ''session_7_def'' store_three =
       (200, ContextBody (toTaskContext toISOString_examples three_example)
               \<lparr> answered = 2, total = 3, percentage = Some 67 \<rparr>)"
    by (simp only: l n)
  with g n show ?thesis by simp
qed

text \<open>
  Claim C3 as stated fails: with 2 of 3 questions answered the context route reports 67,
  and the floor of \<open>100 * 2 / 3\<close> is 66.
\<close>

theorem percentage_not_floor_counterexample:
  "apiContext toISOString_examples ''session_7_def'' store_three =
     (200, ContextBody (toTaskContext toISOString_examples three_example)
             \<lparr> answered = 2, total = 3, percentage = Some 67 \<rparr>)
   \<and> (100 * 2) div 3 = (66 :: nat)
   \<and> \<lfloor>100 * 2 / (3 :: rat)\<rfloor> = 66"
  by code_simp

subsection \<open>The two transports\<close>

text \<open>
  Claim C8, as the code has it.  For a request whose session id, question id and answer
  are all non-empty, \<open>answer_question\<close> of the tool protocol and \<^verbatim>\<open>POST /api/answer\<close>
  agree on acceptance and leave the same store.  When one of the three is empty the route
  rejects the request and leaves the store as it is, whereas the tool does what
  \<open>addResponse\<close> does.
\<close>

theorem answer_transports_agree_when_nonempty:
  "(sid \<noteq> [] \<and> questionId \<noteq> [] \<and> answer \<noteq> [] \<longrightarrow>
      tool_accepted (fst (handleAnswerQuestion written toISOString now sid questionId answer st))
        = http_accepted (fst (apiAnswer written toISOString now sid questionId answer st))
    \<and> snd (handleAnswerQuestion written toISOString now sid questionId answer st)
        = snd (apiAnswer written toISOString now sid questionId answer st))
   \<and> (sid = [] \<or> questionId = [] \<or> answer = [] \<longrightarrow>
        \<not> http_accepted (fst (apiAnswer written toISOString now sid questionId answer st))
      \<and> snd (apiAnswer written toISOString now sid questionId answer st) = st)
   \<and> tool_accepted (fst (handleAnswerQuestion written toISOString now sid questionId answer st))
        = fst (addResponse written toISOString now sid questionId answer st)
   \<and> snd (handleAnswerQuestion written toISOString now sid questionId answer st)
        = snd (addResponse written toISOString now sid questionId answer st)"
proof -
  obtain success st' where a: "addResponse written toISOString now sid questionId answer st = (success, st')"
    by (cases "addResponse written toISOString now sid questionId answer st")
  have ctx: "\<exists>c. getTaskContext toISOString sid st' = Some c" if success
    using addResponse_success_context[of written toISOString now sid questionId answer st st'] a that
    by (auto simp: getTaskContext_def)
  have tool: "tool_accepted (fst (handleAnswerQuestion written toISOString now sid questionId answer st)) = success"
    "snd (handleAnswerQuestion written toISOString now sid questionId answer st) = st'"
    using ctx by (auto simp: handleAnswerQuestion_def a tool_accepted_def Let_def split: option.splits)
  have http: "http_accepted (fst (apiAnswer written toISOString now sid questionId answer st)) = success"
    "snd (apiAnswer written toISOString now sid questionId answer st) = st'"
    if "sid \<noteq> []" "questionId \<noteq> []" "answer \<noteq> []"
    using ctx that by (auto simp: apiAnswer_def a http_accepted_def Let_def split: option.splits)
  have rej: "\<not> http_accepted (fst (apiAnswer written toISOString now sid questionId answer st))"
    "snd (apiAnswer written toISOString now sid questionId answer st) = st"
    if "sid = [] \<or> questionId = [] \<or> answer = []"
    using that by (auto simp: apiAnswer_def http_accepted_def)
  from tool http rej show ?thesis by (simp add: a)
qed

theorem answer_transports_agree_when_nonempty_witness:
  "tool_accepted (fst (handleAnswerQuestion True toISOString_examples 2000
                         ''session_5_abc'' ''q1'' ''Python'' store_example))
   \<and> http_accepted (fst (apiAnswer True toISOString_examples 2000
                         ''session_5_abc'' ''q1'' ''Python'' store_example))
   \<and> snd (handleAnswerQuestion True toISOString_examples 2000
            ''session_5_abc'' ''q1'' ''Python'' store_example)
       = snd (apiAnswer True toISOString_examples 2000
                ''session_5_abc'' ''q1'' ''Python'' store_example)
   \<and> \<not> http_accepted (fst (apiAnswer True toISOString_examples 2000
                         ''session_5_abc'' ''q1'' [] store_example))"
proof -
  have t: "tool_accepted (fst (handleAnswerQuestion True toISOString_examples 2000
                         ''session_5_abc'' ''q1'' ''Python'' store_example))"
    by code_simp
  have ne: "''session_5_abc'' \<noteq> [] \<and> ''q1'' \<noteq> [] \<and> ''Python'' \<noteq> []" by simp
  note a = answer_transports_agree_when_nonempty[where written = True
      and toISOString = toISOString_examples and now = 2000 and st = store_example
      and sid = "''session_5_abc''" and questionId = "''q1''"]
  from mp[OF conjunct1[OF a[where answer = "''Python''"]] ne] t
  have 1: "http_accepted (fst (apiAnswer True toISOString_examples 2000
                         ''session_5_abc'' ''q1'' ''Python'' store_example))"
    and 2: "snd (handleAnswerQuestion True toISOString_examples 2000
            ''session_5_abc'' ''q1'' ''Python'' store_example)
       = snd (apiAnswer True toISOString_examples 2000
                ''session_5_abc'' ''q1'' ''Python'' store_example)"
    by simp_all
  have e: "''session_5_abc'' = [] \<or> ''q1'' = [] \<or> ([]::string) = []" by simp
  from mp[OF conjunct1[OF conjunct2[OF a[where answer = "[]"]]] e]
  have 3: "\<not> http_accepted (fst (apiAnswer True toISOString_examples 2000
                         ''session_5_abc'' ''q1'' [] store_example))"
    by (rule conjunct1)
  from t 1 2 3 show ?thesis by (intro conjI)
qed

text \<open>
  Claim C8 as stated fails: an empty answer to a question of a live session is recorded by
  the tool and rejected by the route.
\<close>

theorem empty_answer_counterexample:
  "tool_accepted (fst (handleAnswerQuestion True toISOString_examples 2000
                         ''session_5_abc'' ''q1'' [] store_example))
   \<and> \<not> http_accepted (fst (apiAnswer True toISOString_examples 2000
                         ''session_5_abc'' ''q1'' [] store_example))
   \<and> getSession ''session_5_abc''
        (snd (handleAnswerQuestion True toISOString_examples 2000
                ''session_5_abc'' ''q1'' [] store_example))
       = Some (session_example\<lparr> responses := [(''q1'', [])], lastUpdated := 2000 \<rparr>)
   \<and> getSession ''session_5_abc''
        (snd (apiAnswer True toISOString_examples 2000 ''session_5_abc'' ''q1'' [] store_example))
       = Some session_example"
  by code_simp

end
